theory Spec2Isabelle
  imports Complex_Main "HOL-Library.Char_ord" "HOL-Library.List_Lexorder"
    "HOL-Library.Product_Lexorder"
begin

section \<open>Python values used by the constraint validator\<close>

text \<open>
  Strings are \<^typ>\<open>string\<close>; the model covers ASCII text, where one \<^typ>\<open>char\<close> is one
  Python character. A value read from a \<^verbatim>\<open>Dict[str, Any]\<close> is a \<open>pyfield\<close>: the key may be
  absent, hold \<^verbatim>\<open>None\<close>, or hold a string. Exceptions are values of \<open>py_error\<close> and a
  function that can raise returns \<open>py_error + 'a\<close>.
\<close>

datatype pyfield = Absent | PyNone | PyStr string

datatype py_error = AttributeError | TypeError | IndexError | Z3Exception

definition upper_chars :: string where
  "upper_chars = ''ABCDEFGHIJKLMNOPQRSTUVWXYZ''"

definition lower_chars :: string where
  "lower_chars = ''abcdefghijklmnopqrstuvwxyz''"

definition digit_chars :: string where
  "digit_chars = ''0123456789''"

definition lower_char :: "char \<Rightarrow> char" where
  "lower_char c = (case map_of (zip upper_chars lower_chars) c of Some l \<Rightarrow> l | None \<Rightarrow> c)"

definition upper_char :: "char \<Rightarrow> char" where
  "upper_char c = (case map_of (zip lower_chars upper_chars) c of Some u \<Rightarrow> u | None \<Rightarrow> c)"

text \<open>\<^verbatim>\<open>str.lower()\<close>\<close>

definition lower :: "string \<Rightarrow> string" where
  "lower s = map lower_char s"

definition is_alpha :: "char \<Rightarrow> bool" where
  "is_alpha c = (c \<in> set (upper_chars @ lower_chars))"

text \<open>\<^verbatim>\<open>str.title()\<close>: the first letter of every run of letters in upper case, the others in
  lower case. The flag tells whether the previous character was a letter.\<close>

fun title_from :: "bool \<Rightarrow> string \<Rightarrow> string" where
  "title_from prev [] = []"
| "title_from prev (c # cs) =
     (if is_alpha c then (if prev then lower_char c else upper_char c) # title_from True cs
      else c # title_from False cs)"

definition title :: "string \<Rightarrow> string" where
  "title s = title_from False s"

text \<open>\<^verbatim>\<open>x in s\<close> on strings: \<open>x\<close> occurs in \<open>s\<close> as a contiguous substring.\<close>

fun starts_with :: "string \<Rightarrow> string \<Rightarrow> bool" where
  "starts_with [] s = True"
| "starts_with (x # xs) [] = False"
| "starts_with (x # xs) (c # cs) = (x = c \<and> starts_with xs cs)"

fun str_in :: "string \<Rightarrow> string \<Rightarrow> bool" where
  "str_in x [] = (x = [])"
| "str_in x (c # cs) = (starts_with x (c # cs) \<or> str_in x cs)"

text \<open>\<^verbatim>\<open>src.get(key, default).lower()\<close>: a missing key reads as the default; a key holding
  \<^verbatim>\<open>None\<close> has no \<^verbatim>\<open>lower\<close> method and raises \<^verbatim>\<open>AttributeError\<close>.\<close>

definition get_lower :: "pyfield \<Rightarrow> string \<Rightarrow> py_error + string" where
  "get_lower f dflt =
     (case f of Absent \<Rightarrow> Inr (lower dflt) | PyNone \<Rightarrow> Inl AttributeError | PyStr s \<Rightarrow> Inr (lower s))"

text \<open>The decimal numeral that an f-string prints for a non-negative integer.\<close>

definition digit_char :: "nat \<Rightarrow> char" where
  "digit_char d = digit_chars ! d"

fun str_nat :: "nat \<Rightarrow> string" where
  "str_nat n = (if n < 10 then [digit_char n] else str_nat (n div 10) @ [digit_char (n mod 10)])"

declare str_nat.simps [simp del]

section \<open>Regular expressions as \<^verbatim>\<open>re\<close> runs them\<close>

text \<open>
  The patterns of the program use literals, the classes \<^verbatim>\<open>\d\<close>, \<^verbatim>\<open>\s\<close>, \<^verbatim>\<open>\w\<close>, greedy
  \<^verbatim>\<open>*\<close>, \<^verbatim>\<open>+\<close>, \<^verbatim>\<open>?\<close>, ordered alternation and capture groups. \<open>ms\<close> lists, in the
  order a backtracking matcher tries them, every way a pattern matches a prefix of the text: the
  rest of the text and the groups captured. The first entry is the match that \<^verbatim>\<open>re\<close> reports.
  The flag is \<^verbatim>\<open>re.IGNORECASE\<close>.
\<close>

datatype atom = Lit char | Digit | Space | Word

datatype regex =
    Atom atom
  | Eps
  | Seq regex regex
  | Alt regex regex
  | Star regex
  | Group nat regex

type_synonym caps = "nat \<rightharpoonup> string"

definition space_chars :: string where
  "space_chars = [CHR '' '', CHR 0x09, CHR 0x0A, CHR 0x0B, CHR 0x0C, CHR 0x0D,
     CHR 0x1C, CHR 0x1D, CHR 0x1E, CHR 0x1F]"

definition is_digit :: "char \<Rightarrow> bool" where
  "is_digit c = (c \<in> set digit_chars)"

definition is_space :: "char \<Rightarrow> bool" where
  "is_space c = (c \<in> set space_chars)"

definition is_word :: "char \<Rightarrow> bool" where
  "is_word c = (c \<in> set (lower_chars @ upper_chars @ digit_chars @ ''_''))"

fun atom_ok :: "bool \<Rightarrow> atom \<Rightarrow> char \<Rightarrow> bool" where
  "atom_ok ic (Lit l) c = (if ic then lower_char c = lower_char l else c = l)"
| "atom_ok ic Digit c = is_digit c"
| "atom_ok ic Space c = is_space c"
| "atom_ok ic Word c = is_word c"

fun ms :: "bool \<Rightarrow> regex \<Rightarrow> string \<times> caps \<Rightarrow> (string \<times> caps) list" where
  "ms ic (Atom a) (s, c) =
     (case s of [] \<Rightarrow> [] | x # xs \<Rightarrow> if atom_ok ic a x then [(xs, c)] else [])"
| "ms ic Eps sc = [sc]"
| "ms ic (Seq r1 r2) sc = concat (map (ms ic r2) (ms ic r1 sc))"
| "ms ic (Alt r1 r2) sc = ms ic r1 sc @ ms ic r2 sc"
| "ms ic (Star r) (s, c) =
     concat (map (\<lambda>(s', c'). if length s' < length s then ms ic (Star r) (s', c') else [])
                 (ms ic r (s, c))) @ [(s, c)]"
| "ms ic (Group n r) (s, c) =
     map (\<lambda>(s', c'). (s', c'(n \<mapsto> take (length s - length s') s))) (ms ic r (s, c))"

text \<open>\<^verbatim>\<open>r+\<close>, \<^verbatim>\<open>r?\<close>, a literal string, and a sequence of patterns.\<close>

definition Plus :: "regex \<Rightarrow> regex" where
  "Plus r = Seq r (Star r)"

definition Opt :: "regex \<Rightarrow> regex" where
  "Opt r = Alt r Eps"

definition Str :: "string \<Rightarrow> regex" where
  "Str s = foldr (\<lambda>c r. Seq (Atom (Lit c)) r) s Eps"

definition seqs :: "regex list \<Rightarrow> regex" where
  "seqs rs = foldr Seq rs Eps"

definition alts :: "string list \<Rightarrow> regex" where
  "alts ss = foldr (\<lambda>s r. Alt (Str s) r) (butlast ss) (Str (last ss))"

record re_result =
  group0 :: string
  groups :: caps

text \<open>\<^verbatim>\<open>re.match\<close>: the pattern at the start of the text.\<close>

definition re_match :: "bool \<Rightarrow> regex \<Rightarrow> string \<Rightarrow> re_result option" where
  "re_match ic r s =
     (case ms ic r (s, Map.empty) of
        [] \<Rightarrow> None
      | (rest, c) # _ \<Rightarrow> Some \<lparr>group0 = take (length s - length rest) s, groups = c\<rparr>)"

text \<open>\<^verbatim>\<open>re.search\<close>: the pattern at the leftmost position where it matches.\<close>

fun re_search :: "bool \<Rightarrow> regex \<Rightarrow> string \<Rightarrow> re_result option" where
  "re_search ic r [] = re_match ic r []"
| "re_search ic r (x # xs) =
     (case re_match ic r (x # xs) of Some m \<Rightarrow> Some m | None \<Rightarrow> re_search ic r xs)"

section \<open>Authority model (\<^verbatim>\<open>authority_model.py\<close>)\<close>

subsection \<open>\<^verbatim>\<open>AuthorityLevel\<close>\<close>

text \<open>
  \<^verbatim>\<open>AuthorityLevel\<close> is an \<^verbatim>\<open>IntEnum\<close>: a member is its integer, two names bound to the
  same integer are one member, and \<^verbatim>\<open>.name\<close> is the first name declared with that integer.
\<close>

type_synonym AuthorityLevel = int

definition SUPREME_COURT :: AuthorityLevel where "SUPREME_COURT = 1"
definition CIRCUIT_COURT :: AuthorityLevel where "CIRCUIT_COURT = 2"
definition STATE_SUPREME :: AuthorityLevel where "STATE_SUPREME = 2"
definition DISTRICT_COURT :: AuthorityLevel where "DISTRICT_COURT = 3"
definition STATE_APPEALS :: AuthorityLevel where "STATE_APPEALS = 3"
definition TRIAL_COURT :: AuthorityLevel where "TRIAL_COURT = 4"
definition ADMINISTRATIVE :: AuthorityLevel where "ADMINISTRATIVE = 5"
definition SECONDARY_SOURCE :: AuthorityLevel where "SECONDARY_SOURCE = 6"
definition WITNESS_STATEMENT :: AuthorityLevel where "WITNESS_STATEMENT = 7"
definition DOCUMENT_EVIDENCE :: AuthorityLevel where "DOCUMENT_EVIDENCE = 7"
definition UNKNOWN :: AuthorityLevel where "UNKNOWN = 10"

lemmas AuthorityLevel_defs =
  SUPREME_COURT_def CIRCUIT_COURT_def STATE_SUPREME_def DISTRICT_COURT_def STATE_APPEALS_def
  TRIAL_COURT_def ADMINISTRATIVE_def SECONDARY_SOURCE_def WITNESS_STATEMENT_def
  DOCUMENT_EVIDENCE_def UNKNOWN_def

definition AuthorityLevel_members :: "(string \<times> AuthorityLevel) list" where
  "AuthorityLevel_members =
     [(''SUPREME_COURT'', SUPREME_COURT), (''CIRCUIT_COURT'', CIRCUIT_COURT),
      (''STATE_SUPREME'', STATE_SUPREME), (''DISTRICT_COURT'', DISTRICT_COURT),
      (''STATE_APPEALS'', STATE_APPEALS), (''TRIAL_COURT'', TRIAL_COURT),
      (''ADMINISTRATIVE'', ADMINISTRATIVE), (''SECONDARY_SOURCE'', SECONDARY_SOURCE),
      (''WITNESS_STATEMENT'', WITNESS_STATEMENT), (''DOCUMENT_EVIDENCE'', DOCUMENT_EVIDENCE),
      (''UNKNOWN'', UNKNOWN)]"

definition level_name :: "AuthorityLevel \<Rightarrow> string" where
  "level_name l =
     (case find (\<lambda>(n, v). v = l) AuthorityLevel_members of Some (n, v) \<Rightarrow> n | None \<Rightarrow> [])"

record AuthorityInfo =
  level :: AuthorityLevel
  court_name :: "string option"
  jurisdiction :: "string option"
  info_date :: "string option"
  binding :: bool
  overruled :: bool

subsection \<open>\<^verbatim>\<open>COURT_PATTERNS\<close>\<close>

text \<open>
  A dict display evaluates its entries from left to right: a key that is already in the dict
  keeps its position and takes the new value.
\<close>

fun dict_set :: "('k \<times> 'v) list \<Rightarrow> 'k \<Rightarrow> 'v \<Rightarrow> ('k \<times> 'v) list" where
  "dict_set [] k v = [(k, v)]"
| "dict_set ((k', v') # d) k v = (if k' = k then (k', v) # d else (k', v') # dict_set d k v)"

definition dict_display :: "('k \<times> 'v) list \<Rightarrow> ('k \<times> 'v) list" where
  "dict_display kvs = foldl (\<lambda>d (k, v). dict_set d k v) [] kvs"

definition sp0 :: regex where "sp0 = Star (Atom Space)"
definition sp1 :: regex where "sp1 = Plus (Atom Space)"
definition dot_opt :: regex where "dot_opt = Opt (Atom (Lit CHR ''.''))"
definition digits1 :: regex where "digits1 = Plus (Atom Digit)"
definition word1 :: regex where "word1 = Plus (Atom Word)"

text \<open>\<^verbatim>\<open>(\d+)(st|nd|rd|th)\s+circuit\<close>\<close>

definition circuit_number_pattern :: regex where
  "circuit_number_pattern =
     seqs [Group 1 digits1, Group 2 (alts [''st'', ''nd'', ''rd'', ''th'']), sp1, Str ''circuit'']"

text \<open>\<^verbatim>\<open>supreme\s+court\s+of\s+the\s+united\s+states\<close>,
  \<^verbatim>\<open>u\.?\s*s\.?\s+supreme\s+court\<close>,
  \<^verbatim>\<open>scotus\<close>,
  \<^verbatim>\<open>\d+\s+u\.?\s*s\.?\s+\d+\<close>\<close>

definition supreme_court_patterns :: "regex list" where
  "supreme_court_patterns =
     [seqs [Str ''supreme'', sp1, Str ''court'', sp1, Str ''of'', sp1, Str ''the'', sp1,
            Str ''united'', sp1, Str ''states''],
      seqs [Str ''u'', dot_opt, sp0, Str ''s'', dot_opt, sp1, Str ''supreme'', sp1, Str ''court''],
      Str ''scotus'',
      seqs [digits1, sp1, Str ''u'', dot_opt, sp0, Str ''s'', dot_opt, sp1, digits1]]"

text \<open>\<^verbatim>\<open>(\d+)(st|nd|rd|th)\s+circuit\<close>,
  \<^verbatim>\<open>court\s+of\s+appeals?\s+for\s+the\s+(\d+)(st|nd|rd|th)\s+circuit\<close>,
  \<^verbatim>\<open>\d+\s+f\.\s*\d*d?\s+\d+\<close>\<close>

definition circuit_court_patterns :: "regex list" where
  "circuit_court_patterns =
     [circuit_number_pattern,
      seqs [Str ''court'', sp1, Str ''of'', sp1, Str ''appeal'', Opt (Str ''s''), sp1, Str ''for'',
            sp1, Str ''the'', sp1, circuit_number_pattern],
      seqs [digits1, sp1, Str ''f.'', sp0, Star (Atom Digit), Opt (Str ''d''), sp1, digits1]]"

text \<open>\<^verbatim>\<open>district\s+court\<close>,
  \<^verbatim>\<open>u\.?\s*s\.?\s*d\.?\s*c\.?\<close>,
  \<^verbatim>\<open>\d+\s+f\.\s*supp\<close>\<close>

definition district_court_patterns :: "regex list" where
  "district_court_patterns =
     [seqs [Str ''district'', sp1, Str ''court''],
      seqs [Str ''u'', dot_opt, sp0, Str ''s'', dot_opt, sp0, Str ''d'', dot_opt, sp0,
            Str ''c'', dot_opt],
      seqs [digits1, sp1, Str ''f.'', sp0, Str ''supp'']]"

text \<open>\<^verbatim>\<open>supreme\s+court\s+of\s+\w+\<close>,
  \<^verbatim>\<open>\w+\s+supreme\s+court\<close>\<close>

definition state_supreme_patterns :: "regex list" where
  "state_supreme_patterns =
     [seqs [Str ''supreme'', sp1, Str ''court'', sp1, Str ''of'', sp1, word1],
      seqs [word1, sp1, Str ''supreme'', sp1, Str ''court'']]"

text \<open>\<^verbatim>\<open>trial\s+court\<close>, \<^verbatim>\<open>superior\s+court\<close>, \<^verbatim>\<open>county\s+court\<close>\<close>

definition trial_court_patterns :: "regex list" where
  "trial_court_patterns =
     [seqs [Str ''trial'', sp1, Str ''court''],
      seqs [Str ''superior'', sp1, Str ''court''],
      seqs [Str ''county'', sp1, Str ''court'']]"

text \<open>The display as the module writes it, and the dict it builds.\<close>

definition COURT_PATTERNS_display :: "(AuthorityLevel \<times> regex list) list" where
  "COURT_PATTERNS_display =
     [(SUPREME_COURT, supreme_court_patterns),
      (CIRCUIT_COURT, circuit_court_patterns),
      (DISTRICT_COURT, district_court_patterns),
      (STATE_SUPREME, state_supreme_patterns),
      (TRIAL_COURT, trial_court_patterns)]"

definition COURT_PATTERNS :: "(AuthorityLevel \<times> regex list) list" where
  "COURT_PATTERNS = dict_display COURT_PATTERNS_display"

subsection \<open>\<^verbatim>\<open>AuthorityRanker\<close>\<close>

text \<open>The state of a ranker is its \<^verbatim>\<open>court_cache\<close>.\<close>

type_synonym court_cache = "string \<rightharpoonup> AuthorityInfo"

record source =
  src_doc_title :: pyfield
  src_court :: pyfield
  src_quote :: pyfield
  src_doc_type :: pyfield
  src_date :: pyfield

text \<open>The empty dict \<^verbatim>\<open>{}\<close> read as a source.\<close>

definition empty_source :: source where
  "empty_source = \<lparr>src_doc_title = Absent, src_court = Absent, src_quote = Absent,
     src_doc_type = Absent, src_date = Absent\<rparr>"

definition pattern_hits :: "string \<Rightarrow> regex \<Rightarrow> bool" where
  "pattern_hits text p = (re_search True p text \<noteq> None)"

definition detect_from_text :: "string \<Rightarrow> AuthorityLevel" where
  "detect_from_text text0 =
     (let text = lower text0 in
      case find (\<lambda>(lvl, patterns). list_ex (pattern_hits text) patterns) COURT_PATTERNS of
        Some (lvl, patterns) \<Rightarrow> lvl
      | None \<Rightarrow> UNKNOWN)"

definition states :: "string list" where
  "states =
     [''alabama'', ''alaska'', ''arizona'', ''arkansas'', ''california'',
      ''colorado'', ''connecticut'', ''delaware'', ''florida'', ''georgia'',
      ''hawaii'', ''idaho'', ''illinois'', ''indiana'', ''iowa'', ''kansas'',
      ''kentucky'', ''louisiana'', ''maine'', ''maryland'', ''massachusetts'',
      ''michigan'', ''minnesota'', ''mississippi'', ''missouri'', ''montana'',
      ''nebraska'', ''nevada'', ''new hampshire'', ''new jersey'', ''new mexico'',
      ''new york'', ''north carolina'', ''north dakota'', ''ohio'', ''oklahoma'',
      ''oregon'', ''pennsylvania'', ''rhode island'', ''south carolina'',
      ''south dakota'', ''tennessee'', ''texas'', ''utah'', ''vermont'',
      ''virginia'', ''washington'', ''west virginia'', ''wisconsin'', ''wyoming'']"

text \<open>A group that took no part in the match prints as \<^verbatim>\<open>None\<close> in an f-string.\<close>

definition group_str :: "re_result \<Rightarrow> nat \<Rightarrow> string" where
  "group_str m n = (case groups m n of Some g \<Rightarrow> g | None \<Rightarrow> ''None'')"

definition detect_jurisdiction :: "string \<Rightarrow> string option" where
  "detect_jurisdiction text =
     (case re_search True circuit_number_pattern text of
        Some circuit_match \<Rightarrow> Some (group_str circuit_match 1 @ ''th Circuit'')
      | None \<Rightarrow>
          (case find (\<lambda>state. str_in state (lower text)) states of
             Some state \<Rightarrow> Some (title state)
           | None \<Rightarrow> None))"

text \<open>\<^verbatim>\<open>any(x in doc_type for x in keywords)\<close>\<close>

definition any_in :: "string list \<Rightarrow> string \<Rightarrow> bool" where
  "any_in keywords doc_type = list_ex (\<lambda>x. str_in x doc_type) keywords"

definition level_of_fields :: "string \<Rightarrow> string \<Rightarrow> string \<Rightarrow> string \<Rightarrow> AuthorityLevel" where
  "level_of_fields court doc_title quote doc_type =
     (let lvl = detect_from_text court;
          lvl = (if lvl = UNKNOWN then detect_from_text doc_title else lvl);
          lvl = (if lvl = UNKNOWN then detect_from_text quote else lvl);
          lvl = (if lvl = UNKNOWN then
                   (if any_in [''fd-302'', ''fbi'', ''interview'', ''statement''] doc_type
                      then WITNESS_STATEMENT
                    else if any_in [''indictment'', ''motion'', ''filing''] doc_type
                      then TRIAL_COURT
                    else if any_in [''email'', ''memo'', ''document''] doc_type
                      then DOCUMENT_EVIDENCE
                    else lvl)
                 else lvl)
      in if lvl = UNKNOWN then DOCUMENT_EVIDENCE else lvl)"

definition make_info :: "string \<Rightarrow> string \<Rightarrow> string \<Rightarrow> string \<Rightarrow> AuthorityInfo" where
  "make_info court doc_title quote doc_type =
     (let lvl = level_of_fields court doc_title quote doc_type;
          name = (if court \<noteq> [] then court else doc_title)
      in \<lparr>level = lvl, court_name = Some name, jurisdiction = detect_jurisdiction name,
          info_date = None, binding = (lvl \<le> DISTRICT_COURT), overruled = False\<rparr>)"

definition detect_authority ::
  "court_cache \<Rightarrow> source \<Rightarrow> py_error + (AuthorityInfo \<times> court_cache)" where
  "detect_authority cache src =
     (case get_lower (src_doc_title src) [] of Inl e \<Rightarrow> Inl e | Inr doc_title \<Rightarrow>
      case get_lower (src_court src) [] of Inl e \<Rightarrow> Inl e | Inr court \<Rightarrow>
      case get_lower (src_quote src) [] of Inl e \<Rightarrow> Inl e | Inr quote \<Rightarrow>
      case get_lower (src_doc_type src) [] of Inl e \<Rightarrow> Inl e | Inr doc_type \<Rightarrow>
        (let cache_key = doc_title @ '':'' @ court in
         case cache cache_key of
           Some info \<Rightarrow> Inr (info, cache)
         | None \<Rightarrow>
             (let info = make_info court doc_title quote doc_type
              in Inr (info, cache(cache_key \<mapsto> info)))))"

text \<open>A source whose fields, where present, are strings.\<close>

definition str_fields :: "source \<Rightarrow> bool" where
  "str_fields src =
     (src_doc_title src \<noteq> PyNone \<and> src_court src \<noteq> PyNone \<and> src_quote src \<noteq> PyNone \<and>
      src_doc_type src \<noteq> PyNone \<and> src_date src \<noteq> PyNone)"

text \<open>A constraint as the ranker sees it: a dict whose \<^verbatim>\<open>source\<close> key may be missing, and
  whatever else it carries.\<close>

record 'a rconstraint =
  rc_source :: "source option"
  rc_rest :: 'a

text \<open>\<^verbatim>\<open>constraint.get('source', {})\<close>\<close>

definition get_source :: "'a rconstraint \<Rightarrow> source" where
  "get_source c = (case rc_source c of None \<Rightarrow> empty_source | Some s \<Rightarrow> s)"

text \<open>The sort key \<^verbatim>\<open>(auth.level, not auth.binding, source.get('date', '9999'))\<close>; the date
  is \<open>None\<close> when the key holds \<^verbatim>\<open>None\<close>.\<close>

type_synonym authority_key = "AuthorityLevel \<times> bool \<times> string option"

definition date_key :: "pyfield \<Rightarrow> string option" where
  "date_key f = (case f of Absent \<Rightarrow> Some ''9999'' | PyNone \<Rightarrow> None | PyStr s \<Rightarrow> Some s)"

definition get_authority_key ::
  "court_cache \<Rightarrow> 'a rconstraint \<Rightarrow> py_error + (authority_key \<times> court_cache)" where
  "get_authority_key cache c =
     (let src = get_source c in
      case detect_authority cache src of
        Inl e \<Rightarrow> Inl e
      | Inr (auth, cache') \<Rightarrow> Inr ((level auth, \<not> binding auth, date_key (src_date src)), cache'))"

text \<open>\<^verbatim>\<open>sorted\<close> computes the key of every element, in list order, before it compares.\<close>

fun authority_keys ::
  "court_cache \<Rightarrow> 'a rconstraint list \<Rightarrow> py_error + (authority_key list \<times> court_cache)" where
  "authority_keys cache [] = Inr ([], cache)"
| "authority_keys cache (c # cs) =
     (case get_authority_key cache c of
        Inl e \<Rightarrow> Inl e
      | Inr (k, cache') \<Rightarrow>
          (case authority_keys cache' cs of
             Inl e \<Rightarrow> Inl e
           | Inr (ks, cache'') \<Rightarrow> Inr (k # ks, cache'')))"

text \<open>
  Tuples compare item by item: the first items that differ decide. Two keys with the same level
  and binding flag are ordered by their dates, and \<^verbatim>\<open><\<close> between \<^verbatim>\<open>None\<close> and a string raises
  \<^verbatim>\<open>TypeError\<close>. A comparison sort must compare, within every group of equal level and flag, a
  \<^verbatim>\<open>None\<close> date with a string date if the group has both, so \<^verbatim>\<open>sorted\<close> raises exactly when
  two keys clash. Otherwise it is the stable sort by key, strings in lexicographic order.
\<close>

definition keys_clash :: "authority_key \<Rightarrow> authority_key \<Rightarrow> bool" where
  "keys_clash k1 k2 =
     (fst k1 = fst k2 \<and> fst (snd k1) = fst (snd k2) \<and> (snd (snd k1) = None) \<noteq> (snd (snd k2) = None))"

definition total_key :: "authority_key \<Rightarrow> AuthorityLevel \<times> bool \<times> string" where
  "total_key k = (fst k, fst (snd k), case snd (snd k) of None \<Rightarrow> [] | Some d \<Rightarrow> d)"

definition py_sorted :: "(authority_key \<times> 'a) list \<Rightarrow> py_error + 'a list" where
  "py_sorted kxs =
     (if list_ex (\<lambda>kx. list_ex (\<lambda>ky. keys_clash (fst kx) (fst ky)) kxs) kxs then Inl TypeError
      else Inr (map snd (sort_key (\<lambda>kx. total_key (fst kx)) kxs)))"

definition rank_constraints ::
  "court_cache \<Rightarrow> 'a rconstraint list \<Rightarrow> py_error + ('a rconstraint list \<times> court_cache)" where
  "rank_constraints cache cs =
     (case authority_keys cache cs of
        Inl e \<Rightarrow> Inl e
      | Inr (ks, cache') \<Rightarrow>
          (case py_sorted (zip ks cs) of Inl e \<Rightarrow> Inl e | Inr ranked \<Rightarrow> Inr (ranked, cache')))"

text \<open>\<open>k\<close> is the sort key of \<open>c\<close> on a ranker whose cache already holds the source of \<open>c\<close>.\<close>

definition key_rel :: "court_cache \<Rightarrow> authority_key \<Rightarrow> 'a rconstraint \<Rightarrow> bool" where
  "key_rel cache' k c =
     (\<exists>a. detect_authority cache' (get_source c) = Inr (a, cache')
          \<and> k = (level a, \<not> binding a, date_key (src_date (get_source c))))"

text \<open>\<^verbatim>\<open>[self.detect_authority(s) for s in srcs]\<close>: calls in sequence on one ranker.\<close>

fun detect_each ::
  "court_cache \<Rightarrow> source list \<Rightarrow> py_error + (AuthorityInfo list \<times> court_cache)" where
  "detect_each cache [] = Inr ([], cache)"
| "detect_each cache (s # ss) =
     (case detect_authority cache s of
        Inl e \<Rightarrow> Inl e
      | Inr (i, cache') \<Rightarrow>
          (case detect_each cache' ss of
             Inl e \<Rightarrow> Inl e
           | Inr (is, cache'') \<Rightarrow> Inr (i # is, cache'')))"

record 'a resolution =
  resolved :: bool
  winner :: "'a rconstraint option"
  loser :: "'a rconstraint option"
  reason :: string
  constraints :: "'a rconstraint list option"
  recommendation :: "string option"
  authority_hierarchy :: "('a rconstraint \<times> string) list option"

text \<open>An optional string in an f-string.\<close>

definition fmt_opt :: "string option \<Rightarrow> string" where
  "fmt_opt x = (case x of None \<Rightarrow> ''None'' | Some s \<Rightarrow> s)"

definition overrides_text :: "AuthorityInfo \<Rightarrow> AuthorityInfo \<Rightarrow> string" where
  "overrides_text winner_auth loser_auth =
     level_name (level winner_auth) @ '' ('' @ fmt_opt (court_name winner_auth) @ '') overrides ''
       @ level_name (level loser_auth) @ '' ('' @ fmt_opt (court_name loser_auth) @ '')''"

definition resolve_conflict ::
  "court_cache \<Rightarrow> 'a rconstraint list \<Rightarrow> py_error + ('a resolution \<times> court_cache)" where
  "resolve_conflict cache conflicting_constraints =
     (case conflicting_constraints of
        [] \<Rightarrow>
          Inr (\<lparr>resolved = False, winner = None, loser = None,
                reason = ''No constraints provided'', constraints = None,
                recommendation = None, authority_hierarchy = None\<rparr>, cache)
      | [c] \<Rightarrow>
          Inr (\<lparr>resolved = True, winner = Some c, loser = None,
                reason = ''Only one constraint'', constraints = None,
                recommendation = None, authority_hierarchy = None\<rparr>, cache)
      | _ \<Rightarrow>
          (case rank_constraints cache conflicting_constraints of
             Inl e \<Rightarrow> Inl e
           | Inr (ranked, cache1) \<Rightarrow>
          (case ranked of
             [] \<Rightarrow> Inl IndexError
           | w # _ \<Rightarrow>
          (let l = last ranked in
           case detect_authority cache1 (get_source w) of
             Inl e \<Rightarrow> Inl e
           | Inr (winner_auth, cache2) \<Rightarrow>
          (case detect_authority cache2 (get_source l) of
             Inl e \<Rightarrow> Inl e
           | Inr (loser_auth, cache3) \<Rightarrow>
               if level winner_auth = level loser_auth then
                 Inr (\<lparr>resolved = False, winner = None, loser = None,
                       reason = ''Same authority level ('' @ level_name (level winner_auth) @ '')'',
                       constraints = Some ranked,
                       recommendation = Some ''Manual review required - same authority level'',
                       authority_hierarchy = None\<rparr>, cache3)
               else
                 (case detect_each cache3 (map get_source ranked) of
                    Inl e \<Rightarrow> Inl e
                  | Inr (auths, cache4) \<Rightarrow>
                      Inr (\<lparr>resolved = True, winner = Some w, loser = Some l,
                            reason = overrides_text winner_auth loser_auth,
                            constraints = None, recommendation = None,
                            authority_hierarchy =
                              Some (zip ranked (map (\<lambda>a. level_name (level a)) auths))\<rparr>,
                           cache4)))))))"

section \<open>Constraint extractor (\<^verbatim>\<open>constraint_extractor.py\<close>)\<close>

datatype ConstraintType = ASSERTION | NEGATION | IMPLICATION | TEMPORAL | EQUIVALENCE | EXCLUSION

fun type_value :: "ConstraintType \<Rightarrow> string" where
  "type_value ASSERTION = ''assertion''"
| "type_value NEGATION = ''negation''"
| "type_value IMPLICATION = ''implication''"
| "type_value TEMPORAL = ''temporal''"
| "type_value EQUIVALENCE = ''equivalence''"
| "type_value EXCLUSION = ''exclusion''"

text \<open>\<^verbatim>\<open>ConstraintType(value)\<close>; \<open>None\<close> where it raises \<^verbatim>\<open>ValueError\<close>.\<close>

definition ConstraintType_of :: "string \<Rightarrow> ConstraintType option" where
  "ConstraintType_of v =
     find (\<lambda>t. type_value t = v) [ASSERTION, NEGATION, IMPLICATION, TEMPORAL, EQUIVALENCE, EXCLUSION]"

record Provenance =
  doc_id :: string
  doc_title :: string
  paragraph_no :: "int option"
  page :: "int option"
  quote :: string
  court :: "string option"
  date :: "string option"
  doc_type :: "string option"

text \<open>The fields of a \<^verbatim>\<open>Constraint\<close>; \<open>'t\<close> is the type of \<^verbatim>\<open>constraint_type\<close>: the enum
  member in the dataclass, its value string in the dict that \<^verbatim>\<open>to_dict\<close> returns.\<close>

record 't constraint_fields =
  cid :: string
  constraint_type :: 't
  subject :: string
  predicate :: "string option"
  variables :: "string list"
  logic_form :: string
  natural_language :: string
  confidence :: real
  provenance :: "Provenance option"
  is_hard :: bool

type_synonym Constraint = "ConstraintType constraint_fields"

type_synonym constraint_dict = "string constraint_fields"

definition to_dict :: "Constraint \<Rightarrow> constraint_dict" where
  "to_dict c =
     \<lparr>cid = cid c, constraint_type = type_value (constraint_type c), subject = subject c,
      predicate = predicate c, variables = variables c, logic_form = logic_form c,
      natural_language = natural_language c, confidence = confidence c,
      provenance = provenance c, is_hard = is_hard c\<rparr>"

text \<open>A finding is a dict; each field is \<open>None\<close> when its key is missing.\<close>

record finding =
  f_quote :: "string option"
  f_Quote :: "string option"
  f_document :: "string option"
  f_Document :: "string option"
  f_significance :: "string option"
  f_Significance :: "string option"
  f_entities :: "string list option"
  f_Entities :: "string list option"
  f_doc_id :: "string option"
  f_paragraph :: "int option"
  f_page :: "int option"
  f_court :: "string option"
  f_date :: "string option"
  f_doc_type :: "string option"

text \<open>\<^verbatim>\<open>d.get(k1, d.get(k2, default))\<close>\<close>

definition get2 :: "'a option \<Rightarrow> 'a option \<Rightarrow> 'a \<Rightarrow> 'a" where
  "get2 a b dflt = (case a of Some x \<Rightarrow> x | None \<Rightarrow> (case b of Some y \<Rightarrow> y | None \<Rightarrow> dflt))"

subsection \<open>The completion service\<close>

text \<open>
  The completion service is outside the program. A call takes the quote, the significance and the
  entities that the prompt is built from, and the state of the world \<open>'w\<close>; it gives the list of
  dicts that \<^verbatim>\<open>json.loads\<close> returns, or fails (transport error, bad status, malformed reply).
  An item is a dict whose keys may be missing.
\<close>

record llm_item =
  cd_type :: "string option"
  cd_subject :: "string option"
  cd_predicate :: "string option"
  cd_variables :: "string list option"
  cd_logic_form :: "string option"
  cd_natural_language :: "string option"
  cd_confidence :: "real option"
  cd_is_hard :: "bool option"

datatype llm_reply = LlmFailure | LlmItems "llm_item list"

type_synonym 'w llm = "'w \<Rightarrow> string \<times> string \<times> string list \<Rightarrow> llm_reply \<times> 'w"

definition get_or :: "'a option \<Rightarrow> 'a \<Rightarrow> 'a" where
  "get_or a dflt = (case a of Some x \<Rightarrow> x | None \<Rightarrow> dflt)"

text \<open>The loop over the reply. The counter is the extractor's \<^verbatim>\<open>constraint_counter\<close>; it
  keeps its increments when an item raises and the reply is given up (\<open>None\<close>).\<close>

fun llm_constraints ::
  "Provenance \<Rightarrow> llm_item list \<Rightarrow> nat \<Rightarrow> Constraint list option \<times> nat" where
  "llm_constraints prov [] counter = (Some [], counter)"
| "llm_constraints prov (cd # cds) counter0 =
     (let counter = counter0 + 1 in
      case ConstraintType_of (get_or (cd_type cd) ''assertion'') of
        None \<Rightarrow> (None, counter)
      | Some t \<Rightarrow>
          (let c = \<lparr>cid = ''c_'' @ str_nat counter, constraint_type = t,
                     subject = get_or (cd_subject cd) [], predicate = cd_predicate cd,
                     variables = get_or (cd_variables cd) [],
                     logic_form = get_or (cd_logic_form cd) [],
                     natural_language = get_or (cd_natural_language cd) [],
                     confidence = get_or (cd_confidence cd) 0.8,
                     provenance = Some prov, is_hard = get_or (cd_is_hard cd) True\<rparr>
           in case llm_constraints prov cds counter of
                (None, counter') \<Rightarrow> (None, counter')
              | (Some cs, counter') \<Rightarrow> (Some (c # cs), counter')))"

definition llm_extract ::
  "'w llm \<Rightarrow> string \<Rightarrow> string \<Rightarrow> string list \<Rightarrow> Provenance \<Rightarrow> nat \<times> 'w
     \<Rightarrow> Constraint list \<times> (nat \<times> 'w)" where
  "llm_extract llm quote_text significance entities prov st =
     (case llm (snd st) (quote_text, significance, entities) of
        (LlmFailure, w') \<Rightarrow> ([], (fst st, w'))
      | (LlmItems cds, w') \<Rightarrow>
          (case llm_constraints prov cds (fst st) of
             (None, counter') \<Rightarrow> ([], (counter', w'))
           | (Some cs, counter') \<Rightarrow> (cs, (counter', w'))))"

subsection \<open>Pattern extraction\<close>

text \<open>\<^verbatim>\<open>did not (\w+)\<close>, \<^verbatim>\<open>never (\w+)\<close>, \<^verbatim>\<open>didn't (\w+)\<close>, \<^verbatim>\<open>was not (\w+)\<close>,
  \<^verbatim>\<open>no (\w+) was\<close>\<close>

definition negation_patterns :: "regex list" where
  "negation_patterns =
     [seqs [Str ''did not '', Group 1 word1],
      seqs [Str ''never '', Group 1 word1],
      seqs [Str (''didn'' @ [CHR 0x27] @ ''t ''), Group 1 word1],
      seqs [Str ''was not '', Group 1 word1],
      seqs [Str ''no '', Group 1 word1, Str '' was'']]"

text \<open>\<^verbatim>\<open>(\w+) confirmed that\<close>, \<^verbatim>\<open>(\w+) stated that\<close>, \<^verbatim>\<open>(\w+) was (\w+)\<close>,
  \<^verbatim>\<open>(\w+) met (\w+)\<close>\<close>

definition assertion_patterns :: "regex list" where
  "assertion_patterns =
     [seqs [Group 1 word1, Str '' confirmed that''],
      seqs [Group 1 word1, Str '' stated that''],
      seqs [Group 1 word1, Str '' was '', Group 2 word1],
      seqs [Group 1 word1, Str '' met '', Group 2 word1]]"

text \<open>One of the two loops of \<^verbatim>\<open>_pattern_extract\<close>: every pattern that is found in the quote
  takes the next counter value and gives one constraint on the variable \<^verbatim>\<open>fact_N\<close>.\<close>

fun pattern_loop ::
  "ConstraintType \<Rightarrow> string \<Rightarrow> real \<Rightarrow> Provenance \<Rightarrow> string \<Rightarrow> regex list \<Rightarrow> nat
     \<Rightarrow> Constraint list \<times> nat" where
  "pattern_loop t val conf prov quote_lower [] counter = ([], counter)"
| "pattern_loop t val conf prov quote_lower (pattern # patterns) counter0 =
     (case re_search False pattern quote_lower of
        None \<Rightarrow> pattern_loop t val conf prov quote_lower patterns counter0
      | Some m \<Rightarrow>
          (let counter = counter0 + 1;
               var_name = ''fact_'' @ str_nat counter;
               c = \<lparr>cid = ''c_'' @ str_nat counter, constraint_type = t,
                    subject = group0 m, predicate = None, variables = [var_name],
                    logic_form = var_name @ '' == '' @ val, natural_language = group0 m,
                    confidence = conf, provenance = Some prov, is_hard = True\<rparr>;
               (cs, counter') = pattern_loop t val conf prov quote_lower patterns counter
           in (c # cs, counter')))"

definition pattern_extract ::
  "string \<Rightarrow> string list \<Rightarrow> Provenance \<Rightarrow> nat \<Rightarrow> Constraint list \<times> nat" where
  "pattern_extract quote_text entities prov counter =
     (let quote_lower = lower quote_text;
          (negs, counter1) =
             pattern_loop NEGATION ''False'' 0.6 prov quote_lower negation_patterns counter;
          (asserts, counter2) =
             pattern_loop ASSERTION ''True'' 0.5 prov quote_lower assertion_patterns counter1
      in (negs @ asserts, counter2))"

subsection \<open>\<^verbatim>\<open>extract_constraints\<close>\<close>

definition extract_from_finding ::
  "'w llm \<Rightarrow> finding \<Rightarrow> nat \<times> 'w \<Rightarrow> Constraint list \<times> (nat \<times> 'w)" where
  "extract_from_finding llm f st =
     (let quote_text = get2 (f_quote f) (f_Quote f) [];
          document = get2 (f_document f) (f_Document f) ''Unknown'';
          significance = get2 (f_significance f) (f_Significance f) [];
          entities = get2 (f_entities f) (f_Entities f) []
      in if quote_text = [] then ([], st)
         else
           (let prov = \<lparr>doc_id = get_or (f_doc_id f) [], doc_title = document,
                        paragraph_no = f_paragraph f, page = f_page f,
                        quote = take 500 quote_text, court = f_court f, date = f_date f,
                        doc_type = f_doc_type f\<rparr>;
                (cs, st') = llm_extract llm quote_text significance entities prov st
            in if cs = [] then
                 (let (cs', counter') = pattern_extract quote_text entities prov (fst st')
                  in (cs', (counter', snd st')))
               else (cs, st')))"

text \<open>The first loop of \<^verbatim>\<open>extract_constraints\<close>: the findings one after the other.\<close>

fun extract_all ::
  "'w llm \<Rightarrow> finding list \<Rightarrow> nat \<times> 'w \<Rightarrow> Constraint list \<times> (nat \<times> 'w)" where
  "extract_all llm [] st = ([], st)"
| "extract_all llm (f # fs) st =
     (let (cs, st') = extract_from_finding llm f st;
          (rest, st'') = extract_all llm fs st'
      in (cs @ rest, st''))"

text \<open>The second loop: \<^verbatim>\<open>seen_logic\<close> and \<^verbatim>\<open>unique_constraints\<close>.\<close>

fun dedup_loop :: "string set \<Rightarrow> Constraint list \<Rightarrow> Constraint list" where
  "dedup_loop seen_logic [] = []"
| "dedup_loop seen_logic (c # cs) =
     (if logic_form c \<notin> seen_logic
        then c # dedup_loop (insert (logic_form c) seen_logic) cs
      else dedup_loop seen_logic cs)"

definition extract_constraints ::
  "'w llm \<Rightarrow> finding list \<Rightarrow> nat \<times> 'w \<Rightarrow> Constraint list \<times> (nat \<times> 'w)" where
  "extract_constraints llm findings st =
     (let (cs, st') = extract_all llm findings st in (dedup_loop {} cs, st'))"

section \<open>Satisfiability validator (\<^verbatim>\<open>z3_validator.py\<close>)\<close>

subsection \<open>Boolean expressions and the solver\<close>

text \<open>
  The Boolean expressions of the solver library that the program can build: a Boolean constant
  \<^verbatim>\<open>Bool(name)\<close>, a truth value, and the connectives. An assignment gives every name a truth
  value; tracking literals are Boolean constants too and live in the same name space.
\<close>

datatype z3_expr =
    Z3Bool string
  | Z3Val bool
  | Z3Not z3_expr
  | Z3And z3_expr z3_expr
  | Z3Or z3_expr z3_expr
  | Z3Implies z3_expr z3_expr
  | Z3Eq z3_expr z3_expr

fun z3_eval :: "(string \<Rightarrow> bool) \<Rightarrow> z3_expr \<Rightarrow> bool" where
  "z3_eval m (Z3Bool n) = m n"
| "z3_eval m (Z3Val b) = b"
| "z3_eval m (Z3Not e) = (\<not> z3_eval m e)"
| "z3_eval m (Z3And a b) = (z3_eval m a \<and> z3_eval m b)"
| "z3_eval m (Z3Or a b) = (z3_eval m a \<or> z3_eval m b)"
| "z3_eval m (Z3Implies a b) = (z3_eval m a \<longrightarrow> z3_eval m b)"
| "z3_eval m (Z3Eq a b) = (z3_eval m a = z3_eval m b)"

fun z3_names :: "z3_expr \<Rightarrow> string list" where
  "z3_names (Z3Bool n) = [n]"
| "z3_names (Z3Val b) = []"
| "z3_names (Z3Not e) = z3_names e"
| "z3_names (Z3And a b) = z3_names a @ z3_names b"
| "z3_names (Z3Or a b) = z3_names a @ z3_names b"
| "z3_names (Z3Implies a b) = z3_names a @ z3_names b"
| "z3_names (Z3Eq a b) = z3_names a @ z3_names b"

text \<open>
  The solver is outside the program. It is given the tracked assertions, each an expression with
  the name of its tracking literal, in the order of the \<^verbatim>\<open>assert_and_track\<close> calls, and it
  answers \<^verbatim>\<open>check()\<close>: a model (completed, so that every name has a value), an unsatisfiable
  core (names of tracking literals), or unknown; or a call raises.
\<close>

datatype check_result = Sat "string \<Rightarrow> bool" | Unsat "string list" | Unknown

type_synonym tracked = "(z3_expr \<times> string) list"

type_synonym solver = "tracked \<Rightarrow> py_error + check_result"

text \<open>What the solver promises. An assertion tracked by \<open>p\<close> is the implication from \<open>p\<close> to the
  expression, and \<^verbatim>\<open>check()\<close> assumes every tracking literal.\<close>

definition tracked_hold :: "(string \<Rightarrow> bool) \<Rightarrow> tracked \<Rightarrow> bool" where
  "tracked_hold m ts = (\<forall>(e, p) \<in> set ts. m p \<longrightarrow> z3_eval m e)"

definition z3_sound :: "solver \<Rightarrow> bool" where
  "z3_sound solve =
     (\<forall>ts.
        (\<forall>m. solve ts = Inr (Sat m) \<longrightarrow> tracked_hold m ts \<and> (\<forall>p \<in> snd ` set ts. m p)) \<and>
        (\<forall>core. solve ts = Inr (Unsat core) \<longrightarrow>
           set core \<subseteq> snd ` set ts \<and> distinct core \<and>
           \<not> (\<exists>m. tracked_hold m ts \<and> (\<forall>p \<in> set core. m p))))"

text \<open>Propositional formulas are decidable and the program sets no resource limit: on
  assertions with distinct tracking literals the solver answers sat or unsat.\<close>

definition z3_decides :: "solver \<Rightarrow> bool" where
  "z3_decides solve =
     (\<forall>ts. distinct (map snd ts) \<longrightarrow>
        (\<exists>m. solve ts = Inr (Sat m)) \<or> (\<exists>core. solve ts = Inr (Unsat core)))"

subsection \<open>\<^verbatim>\<open>_parse_logic_to_z3\<close>\<close>

text \<open>\<^verbatim>\<open>(\w+)\s*==\s*(True|False)\<close>, \<^verbatim>\<open>(\w+)\s*!=\s*(True|False)\<close>, \<^verbatim>\<open>Not\((\w+)\)\<close>,
  \<^verbatim>\<open>And\((\w+),\s*(\w+)\)\<close>, \<^verbatim>\<open>Or\((\w+),\s*(\w+)\)\<close>, \<^verbatim>\<open>Implies\((\w+),\s*(\w+)\)\<close>\<close>

definition eq_pattern :: regex where
  "eq_pattern = seqs [Group 1 word1, sp0, Str ''=='', sp0, Group 2 (alts [''True'', ''False''])]"

definition neq_pattern :: regex where
  "neq_pattern = seqs [Group 1 word1, sp0, Str ''!='', sp0, Group 2 (alts [''True'', ''False''])]"

definition not_pattern :: regex where
  "not_pattern = seqs [Str ''Not('', Group 1 word1, Str '')'']"

definition binary_pattern :: "string \<Rightarrow> regex" where
  "binary_pattern f = seqs [Str (f @ ''(''), Group 1 word1, Str '','', sp0, Group 2 word1, Str '')'']"

text \<open>\<^verbatim>\<open>m.group(n)\<close>; every group of these patterns takes part in every match.\<close>

definition the_group :: "re_result \<Rightarrow> nat \<Rightarrow> string" where
  "the_group m n = (case groups m n of Some g \<Rightarrow> g | None \<Rightarrow> [])"

text \<open>
  \<^verbatim>\<open>z3_vars\<close> maps a name to \<^verbatim>\<open>Bool(name)\<close>: it is the list of its keys, in insertion order.
\<close>

definition declare_var :: "string \<Rightarrow> string list \<Rightarrow> string list" where
  "declare_var var_name z3_vars = (if var_name \<in> set z3_vars then z3_vars else z3_vars @ [var_name])"

text \<open>
  The last resort of the parser is \<^verbatim>\<open>eval\<close> on the logic form, in a name space that holds the
  connectives and the variables declared so far. The evaluator is outside the program: it raises,
  or returns \<^verbatim>\<open>None\<close>, or a Boolean expression of the solver, or some other Python object
  (\<^verbatim>\<open>eval("5")\<close> is the integer 5). The expression need not stay within the name space: a
  logic form can reach the functions of the solver library through the attributes of a
  connective and build a Boolean constant that was never declared.
\<close>

datatype eval_outcome = EvalRaises | EvalNone | EvalExpr z3_expr | EvalOther

type_synonym evaluator = "string \<Rightarrow> string list \<Rightarrow> eval_outcome"

text \<open>What \<^verbatim>\<open>_parse_logic_to_z3\<close> returns: \<^verbatim>\<open>None\<close>, a Boolean expression, or another
  object.\<close>

datatype parsed = ParsedNone | ParsedExpr z3_expr | ParsedOther

definition parse_binary ::
  "(z3_expr \<Rightarrow> z3_expr \<Rightarrow> z3_expr) \<Rightarrow> re_result \<Rightarrow> string list \<Rightarrow> parsed \<times> string list" where
  "parse_binary f m z3_vars =
     (let var_a = the_group m 1; var_b = the_group m 2
      in (ParsedExpr (f (Z3Bool var_a) (Z3Bool var_b)),
          declare_var var_b (declare_var var_a z3_vars)))"

definition parse_logic_to_z3 ::
  "evaluator \<Rightarrow> string \<Rightarrow> string list \<Rightarrow> parsed \<times> string list" where
  "parse_logic_to_z3 ev lf z3_vars =
     (if lf = [] then (ParsedNone, z3_vars)
      else case re_match False eq_pattern lf of
        Some eq_match \<Rightarrow>
          (let var_name = the_group eq_match 1; val = (the_group eq_match 2 = ''True'')
           in (ParsedExpr (if val then Z3Bool var_name else Z3Not (Z3Bool var_name)),
               declare_var var_name z3_vars))
      | None \<Rightarrow>
     (case re_match False neq_pattern lf of
        Some neq_match \<Rightarrow>
          (let var_name = the_group neq_match 1; val = (the_group neq_match 2 = ''True'')
           in (ParsedExpr (if val then Z3Not (Z3Bool var_name) else Z3Bool var_name),
               declare_var var_name z3_vars))
      | None \<Rightarrow>
     (case re_match False not_pattern lf of
        Some not_match \<Rightarrow>
          (let var_name = the_group not_match 1
           in (ParsedExpr (Z3Not (Z3Bool var_name)), declare_var var_name z3_vars))
      | None \<Rightarrow>
     (case re_match False (binary_pattern ''And'') lf of
        Some and_match \<Rightarrow> parse_binary Z3And and_match z3_vars
      | None \<Rightarrow>
     (case re_match False (binary_pattern ''Or'') lf of
        Some or_match \<Rightarrow> parse_binary Z3Or or_match z3_vars
      | None \<Rightarrow>
     (case re_match False (binary_pattern ''Implies'') lf of
        Some implies_match \<Rightarrow> parse_binary Z3Implies implies_match z3_vars
      | None \<Rightarrow>
     (case ev lf z3_vars of
        EvalRaises \<Rightarrow> (ParsedNone, z3_vars)
      | EvalNone \<Rightarrow> (ParsedNone, z3_vars)
      | EvalExpr e \<Rightarrow> (ParsedExpr e, z3_vars)
      | EvalOther \<Rightarrow> (ParsedOther, z3_vars))))))))"

subsection \<open>Conflict explanations\<close>

record ConflictExplanation =
  constraint_a :: constraint_dict
  constraint_b :: constraint_dict
  conflict_type :: string
  ce_explanation :: string
  authority_resolution :: "string option"
  resolution_available :: bool

text \<open>The state of a validator: \<^verbatim>\<open>constraint_db\<close> and the cache of its
  \<^verbatim>\<open>authority_ranker\<close>.\<close>

record validator =
  constraint_db :: "string \<rightharpoonup> Constraint"
  authority_ranker :: court_cache

text \<open>The source dict that \<^verbatim>\<open>_explain_pair_conflict\<close> builds from a provenance: the optional
  fields are passed as they are, \<^verbatim>\<open>None\<close> included.\<close>

definition opt_field :: "string option \<Rightarrow> pyfield" where
  "opt_field x = (case x of None \<Rightarrow> PyNone | Some s \<Rightarrow> PyStr s)"

definition source_of_provenance :: "Provenance \<Rightarrow> source" where
  "source_of_provenance p =
     \<lparr>src_doc_title = PyStr (doc_title p), src_court = opt_field (court p),
      src_quote = PyStr (quote p), src_doc_type = opt_field (doc_type p), src_date = Absent\<rparr>"

definition pair_conflict_type :: "Constraint \<Rightarrow> Constraint \<Rightarrow> string" where
  "pair_conflict_type c_a c_b =
     (if constraint_type c_a = ASSERTION \<and> constraint_type c_b = NEGATION
        then ''direct_contradiction''
      else if constraint_type c_a = NEGATION \<and> constraint_type c_b = ASSERTION
        then ''direct_contradiction''
      else if constraint_type c_a = TEMPORAL \<or> constraint_type c_b = TEMPORAL
        then ''temporal_conflict''
      else ''logical_impossibility'')"

definition title_or_unknown :: "Constraint \<Rightarrow> string" where
  "title_or_unknown c = (case provenance c of None \<Rightarrow> ''Unknown'' | Some p \<Rightarrow> doc_title p)"

definition pair_explanation :: "Constraint \<Rightarrow> Constraint \<Rightarrow> string" where
  "pair_explanation c_a c_b =
     ''Conflict between:'' @ [CHR 0x0A]
     @ ''1. '' @ [CHR 0x22] @ natural_language c_a @ [CHR 0x22] @ '' (from ''
     @ title_or_unknown c_a @ '')'' @ [CHR 0x0A]
     @ ''2. '' @ [CHR 0x22] @ natural_language c_b @ [CHR 0x22] @ '' (from ''
     @ title_or_unknown c_b @ '')'' @ [CHR 0x0A, CHR 0x0A]
     @ ''These statements cannot both be true simultaneously.''"

text \<open>The authority part of \<^verbatim>\<open>_explain_pair_conflict\<close>: \<^verbatim>\<open>authority_resolution\<close> and
  \<^verbatim>\<open>resolution_available\<close>.\<close>

definition pair_authority ::
  "court_cache \<Rightarrow> Constraint \<Rightarrow> Constraint
     \<Rightarrow> py_error + ((string option \<times> bool) \<times> court_cache)" where
  "pair_authority cache c_a c_b =
     (case provenance c_a of
        None \<Rightarrow> Inr ((None, False), cache)
      | Some prov_a \<Rightarrow>
     (case provenance c_b of
        None \<Rightarrow> Inr ((None, False), cache)
      | Some prov_b \<Rightarrow>
     (case detect_authority cache (source_of_provenance prov_a) of
        Inl e \<Rightarrow> Inl e
      | Inr (auth_a, cache1) \<Rightarrow>
     (case detect_authority cache1 (source_of_provenance prov_b) of
        Inl e \<Rightarrow> Inl e
      | Inr (auth_b, cache2) \<Rightarrow>
          if level auth_a \<noteq> level auth_b then
            (let a_wins = level auth_a < level auth_b;
                 winner_prov = (if a_wins then prov_a else prov_b);
                 loser_prov = (if a_wins then prov_b else prov_a);
                 winner_auth = (if a_wins then auth_a else auth_b);
                 loser_auth = (if a_wins then auth_b else auth_a)
             in Inr ((Some (level_name (level winner_auth) @ '' ('' @ doc_title winner_prov
                            @ '') overrides '' @ level_name (level loser_auth) @ '' (''
                            @ doc_title loser_prov @ '')''), True), cache2))
          else Inr ((None, False), cache2)))))"

definition explain_pair_conflict ::
  "court_cache \<Rightarrow> Constraint \<Rightarrow> Constraint \<Rightarrow> py_error + (ConflictExplanation \<times> court_cache)" where
  "explain_pair_conflict cache c_a c_b =
     (case pair_authority cache c_a c_b of
        Inl e \<Rightarrow> Inl e
      | Inr ((resolution, available), cache') \<Rightarrow>
          Inr (\<lparr>constraint_a = to_dict c_a, constraint_b = to_dict c_b,
                conflict_type = pair_conflict_type c_a c_b,
                ce_explanation = pair_explanation c_a c_b,
                authority_resolution = resolution, resolution_available = available\<rparr>,
               cache'))"

text \<open>The pairs \<open>(i, j)\<close> with \<open>i < j\<close>, in the order of the two nested loops.\<close>

fun index_pairs :: "'a list \<Rightarrow> ('a \<times> 'a) list" where
  "index_pairs [] = []"
| "index_pairs (x # xs) = map (Pair x) xs @ index_pairs xs"

fun explain_pairs ::
  "court_cache \<Rightarrow> (Constraint \<times> Constraint) list
     \<Rightarrow> py_error + (ConflictExplanation list \<times> court_cache)" where
  "explain_pairs cache [] = Inr ([], cache)"
| "explain_pairs cache ((c_a, c_b) # ps) =
     (case explain_pair_conflict cache c_a c_b of
        Inl e \<Rightarrow> Inl e
      | Inr (conflict, cache') \<Rightarrow>
          (case explain_pairs cache' ps of
             Inl e \<Rightarrow> Inl e
           | Inr (conflicts, cache'') \<Rightarrow> Inr (conflict # conflicts, cache'')))"

definition self_contradiction :: "Constraint \<Rightarrow> ConflictExplanation" where
  "self_contradiction c =
     \<lparr>constraint_a = to_dict c, constraint_b = to_dict c,
      conflict_type = ''self_contradiction'',
      ce_explanation = ''Constraint '' @ [CHR 0x22] @ natural_language c @ [CHR 0x22]
                        @ '' is self-contradictory'',
      authority_resolution = None, resolution_available = False\<rparr>"

text \<open>\<^verbatim>\<open>_explain_conflicts\<close>\<close>

definition explain_conflicts ::
  "validator \<Rightarrow> string list \<Rightarrow> py_error + (ConflictExplanation list \<times> validator)" where
  "explain_conflicts v core_ids =
     (let core_constraints = List.map_filter (constraint_db v) core_ids
      in if length core_constraints \<ge> 2 then
           (case explain_pairs (authority_ranker v) (index_pairs core_constraints) of
              Inl e \<Rightarrow> Inl e
            | Inr (conflicts, cache') \<Rightarrow> Inr (conflicts, v\<lparr>authority_ranker := cache'\<rparr>))
         else if length core_constraints = 1 then
           Inr ([self_contradiction (hd core_constraints)], v)
         else Inr ([], v))"

text \<open>\<^verbatim>\<open>for c in constraints: self.constraint_db[c.id] = c\<close>\<close>

definition store_constraints :: "Constraint list \<Rightarrow> validator \<Rightarrow> validator" where
  "store_constraints cs v =
     v\<lparr>constraint_db := fold (\<lambda>c db. db(cid c \<mapsto> c)) cs (constraint_db v)\<rparr>"


subsection \<open>\<^verbatim>\<open>validate_consistency\<close>\<close>

record ValidationResult =
  satisfiable :: bool
  status :: string
  model :: "(string \<times> bool) list option"
  unsat_core :: "string list option"
  explanation :: string
  conflicts :: "ConflictExplanation list option"

text \<open>The loop that declares the variables of the active constraints.\<close>

definition declare_all :: "Constraint list \<Rightarrow> string list" where
  "declare_all cs = fold (\<lambda>c z3_vars. fold declare_var (variables c) z3_vars) cs []"

text \<open>The loop that parses and asserts: a constraint whose parse is \<^verbatim>\<open>None\<close> is left out; an
  object that is not a Boolean expression makes \<^verbatim>\<open>assert_and_track\<close> raise.\<close>

fun track_all ::
  "evaluator \<Rightarrow> Constraint list \<Rightarrow> string list \<Rightarrow> py_error + (tracked \<times> string list)" where
  "track_all ev [] z3_vars = Inr ([], z3_vars)"
| "track_all ev (c # cs) z3_vars =
     (case parse_logic_to_z3 ev (logic_form c) z3_vars of
        (ParsedNone, z3_vars') \<Rightarrow> track_all ev cs z3_vars'
      | (ParsedOther, z3_vars') \<Rightarrow> Inl Z3Exception
      | (ParsedExpr e, z3_vars') \<Rightarrow>
          (case track_all ev cs z3_vars' of
             Inl err \<Rightarrow> Inl err
           | Inr (ts, z3_vars'') \<Rightarrow> Inr ((e, cid c) # ts, z3_vars'')))"

definition sat_result :: "(string \<times> bool) list option \<Rightarrow> string \<Rightarrow> ValidationResult" where
  "sat_result m text =
     \<lparr>satisfiable = True, status = ''sat'', model = m, unsat_core = None, explanation = text,
      conflicts = None\<rparr>"

definition validate_consistency ::
  "evaluator \<Rightarrow> solver \<Rightarrow> validator \<Rightarrow> Constraint list \<Rightarrow> bool
     \<Rightarrow> py_error + (ValidationResult \<times> validator)" where
  "validate_consistency ev solve v cs include_soft =
     (if cs = [] then Inr (sat_result None ''No constraints to validate'', v)
      else
        (let active_constraints = filter (\<lambda>c. include_soft \<or> is_hard c) cs
         in if active_constraints = [] then
              Inr (sat_result None ''No hard constraints to validate'', v)
            else
              (let v1 = store_constraints active_constraints v;
                   z3_vars = declare_all active_constraints
               in case track_all ev active_constraints z3_vars of
                    Inl e \<Rightarrow> Inl e
                  | Inr (ts, z3_vars') \<Rightarrow>
                 (case solve ts of
                    Inl e \<Rightarrow> Inl e
                  | Inr (Sat m) \<Rightarrow>
                      Inr (sat_result (Some (map (\<lambda>var_name. (var_name, m var_name)) z3_vars'))
                             ''All constraints are logically consistent'', v1)
                  | Inr (Unsat core_ids) \<Rightarrow>
                      (case explain_conflicts v1 core_ids of
                         Inl e \<Rightarrow> Inl e
                       | Inr (cfs, v2) \<Rightarrow>
                           Inr (\<lparr>satisfiable = False, status = ''unsat'', model = None,
                                 unsat_core = Some core_ids,
                                 explanation = ''Found '' @ str_nat (length core_ids)
                                                @ '' conflicting constraints'',
                                 conflicts = Some cfs\<rparr>, v2))
                  | Inr Unknown \<Rightarrow>
                      Inr (\<lparr>satisfiable = False, status = ''unknown'', model = None,
                            unsat_core = None,
                            explanation =
                              ''Z3 could not determine satisfiability (timeout or complexity)'',
                            conflicts = None\<rparr>, v1)))))"

text \<open>Two constraints whose pair can be explained without a raise: one of them has no
  provenance, or the optional \<^verbatim>\<open>court\<close> and \<^verbatim>\<open>doc_type\<close> of both are strings.\<close>

definition typed_provenance :: "Provenance \<Rightarrow> bool" where
  "typed_provenance p = (court p \<noteq> None \<and> doc_type p \<noteq> None)"

definition explainable :: "Constraint \<Rightarrow> Constraint \<Rightarrow> bool" where
  "explainable c_a c_b =
     (case provenance c_a of
        None \<Rightarrow> True
      | Some prov_a \<Rightarrow>
          (case provenance c_b of
             None \<Rightarrow> True
           | Some prov_b \<Rightarrow> typed_provenance prov_a \<and> typed_provenance prov_b))"




subsection \<open>A reference solver\<close>

text \<open>
  A solver that keeps the promises above, by trying every assignment of the names that occur.
  It shows that the promises can be kept; the program runs the solver library.
\<close>

definition tracked_names :: "tracked \<Rightarrow> string list" where
  "tracked_names ts = remdups (concat (map (\<lambda>(e, p). p # z3_names e) ts))"

definition assignment_of :: "string list \<Rightarrow> string \<Rightarrow> bool" where
  "assignment_of trues n = (n \<in> set trues)"

definition satisfies_all :: "tracked \<Rightarrow> string list \<Rightarrow> bool" where
  "satisfies_all ts trues =
     list_all (\<lambda>(e, p). p \<in> set trues \<and> z3_eval (assignment_of trues) e) ts"

definition reference_solver :: solver where
  "reference_solver ts =
     (case find (satisfies_all ts) (subseqs (tracked_names ts)) of
        Some trues \<Rightarrow> Inr (Sat (assignment_of trues))
      | None \<Rightarrow> Inr (Unsat (remdups (map snd ts))))"

text \<open>An evaluator that knows two strings: \<^verbatim>\<open>eval("5")\<close> is an integer and
  \<^verbatim>\<open>eval("Or(X, Not(X))")\<close>, with \<^verbatim>\<open>X\<close> declared, is a Boolean expression; on the rest it
  raises.\<close>

definition sample_evaluator :: evaluator where
  "sample_evaluator s ns =
     (if s = ''5'' then EvalOther
      else if s = ''Or(X, Not(X))'' \<and> ''X'' \<in> set ns
        then EvalExpr (Z3Or (Z3Bool ''X'') (Z3Not (Z3Bool ''X'')))
      else EvalRaises)"

section \<open>Constraints of the pattern extraction\<close>

text \<open>A reply of the completion service that gives no constraint: a failure, an empty list, or a
  list with an item whose type is not a \<^verbatim>\<open>ConstraintType\<close> (the loop then raises and the
  reply is given up).\<close>

fun yields_nothing :: "llm_reply \<Rightarrow> bool" where
  "yields_nothing LlmFailure = True"
| "yields_nothing (LlmItems cds) =
     (cds = [] \<or> list_ex (\<lambda>cd. ConstraintType_of (get_or (cd_type cd) ''assertion'') = None) cds)"

text \<open>The constraint that the pattern extraction makes at counter value \<open>n\<close>, asserting (\<open>b\<close>
  true) or denying the fact.\<close>

definition fallback_constraint :: "nat \<times> bool \<Rightarrow> Constraint \<Rightarrow> bool" where
  "fallback_constraint nb c =
     (cid c = ''c_'' @ str_nat (fst nb) \<and> variables c = [''fact_'' @ str_nat (fst nb)] \<and>
      logic_form c = ''fact_'' @ str_nat (fst nb) @ '' == '' @ (if snd nb then ''True'' else ''False'') \<and>
      is_hard c)"

text \<open>A list of such constraints made while the counter went from \<open>lo\<close> to \<open>hi\<close>, each at a
  counter value of its own, in increasing order.\<close>

definition fresh_run :: "nat \<Rightarrow> nat \<Rightarrow> Constraint list \<Rightarrow> bool" where
  "fresh_run lo hi cs =
     (lo \<le> hi \<and>
      (\<exists>nbs. list_all2 fallback_constraint nbs cs \<and> sorted_wrt (<) (map fst nbs) \<and>
             (\<forall>n \<in> set (map fst nbs). lo < n \<and> n \<le> hi)))"

text \<open>The assertion that the validator tracks for such a constraint.\<close>

definition fact_tracked :: "nat \<times> bool \<Rightarrow> z3_expr \<times> string" where
  "fact_tracked nb =
     (if snd nb then Z3Bool (''fact_'' @ str_nat (fst nb))
      else Z3Not (Z3Bool (''fact_'' @ str_nat (fst nb))),
      ''c_'' @ str_nat (fst nb))"

section \<open>Sample values\<close>

text \<open>Concrete inputs on which the properties below are run.\<close>

definition c1_X_true :: Constraint where
  "c1_X_true =
     \<lparr>cid = ''c1'', constraint_type = ASSERTION, subject = ''X'', predicate = None,
      variables = [''X''], logic_form = ''X == True'', natural_language = ''X holds'',
      confidence = 0.8, provenance = None, is_hard = True\<rparr>"

definition c2_X_false :: Constraint where
  "c2_X_false =
     \<lparr>cid = ''c2'', constraint_type = NEGATION, subject = ''X'', predicate = None,
      variables = [''X''], logic_form = ''X == False'', natural_language = ''X does not hold'',
      confidence = 0.8, provenance = None, is_hard = True\<rparr>"

definition scotus_provenance :: Provenance where
  "scotus_provenance =
     \<lparr>doc_id = ''d1'', doc_title = ''Smith v. Jones'', paragraph_no = None, page = None,
      quote = ''the court held'', court = Some ''Supreme Court of the United States'',
      date = Some ''1999-01-01'', doc_type = Some ''opinion''\<rparr>"

definition scotus_source :: source where
  "scotus_source =
     \<lparr>src_doc_title = PyStr ''Smith v. Jones'',
      src_court = PyStr ''Supreme Court of the United States'',
      src_quote = PyStr ''the court held'', src_doc_type = Absent, src_date = Absent\<rparr>"

definition trial_source :: source where
  "trial_source =
     \<lparr>src_doc_title = PyStr ''People v. Doe'', src_court = PyStr ''Superior Court'',
      src_quote = Absent, src_doc_type = Absent, src_date = PyStr ''2001-05-05''\<rparr>"

definition scotus_constraint :: "string rconstraint" where
  "scotus_constraint = \<lparr>rc_source = Some scotus_source, rc_rest = ''held''\<rparr>"

definition trial_constraint :: "string rconstraint" where
  "trial_constraint = \<lparr>rc_source = Some trial_source, rc_rest = ''alleged''\<rparr>"


definition five_constraint :: Constraint where
  "five_constraint =
     \<lparr>cid = ''c5'', constraint_type = ASSERTION, subject = ''five'', predicate = None,
      variables = [], logic_form = ''5'', natural_language = ''five'',
      confidence = 0.8, provenance = None, is_hard = True\<rparr>"

definition fresh_validator :: validator where
  "fresh_validator = \<lparr>constraint_db = Map.empty, authority_ranker = Map.empty\<rparr>"

text \<open>A provenance as the extractor makes it for a finding that names no court and no document
  type.\<close>

definition bare_provenance :: Provenance where
  "bare_provenance =
     \<lparr>doc_id = ''d2'', doc_title = ''Interview notes'', paragraph_no = None, page = None,
      quote = ''he did not sign'', court = None, date = None, doc_type = None\<rparr>"

definition none_court_constraint :: "string rconstraint" where
  "none_court_constraint =
     \<lparr>rc_source = Some (source_of_provenance bare_provenance), rc_rest = ''denied''\<rparr>"





definition sample_item :: llm_item where
  "sample_item =
     \<lparr>cd_type = Some ''assertion'', cd_subject = Some ''a'', cd_predicate = None,
      cd_variables = Some [''a''], cd_logic_form = Some ''a == True'',
      cd_natural_language = Some ''a holds'', cd_confidence = None, cd_is_hard = None\<rparr>"

definition sample_llm :: "unit llm" where
  "sample_llm w prompt = (LlmItems [sample_item], w)"

definition failing_llm :: "unit llm" where
  "failing_llm w prompt = (LlmFailure, w)"

definition sample_finding :: finding where
  "sample_finding =
     \<lparr>f_quote = Some ''He did not sign. She stated that he was late.'', f_Quote = None,
      f_document = Some ''Interview notes'', f_Document = None, f_significance = None,
      f_Significance = None, f_entities = None, f_Entities = None, f_doc_id = None,
      f_paragraph = None, f_page = None, f_court = None, f_date = None, f_doc_type = None\<rparr>"

section \<open>Properties of the authority model\<close>

lemmas regex_eval_defs =
  seqs_def Str_def alts_def sp0_def sp1_def dot_opt_def digits1_def word1_def Plus_def Opt_def
  re_match_def pattern_hits_def circuit_number_pattern_def
  lower_def lower_char_def upper_char_def upper_chars_def lower_chars_def
  is_digit_def is_word_def is_space_def digit_chars_def space_chars_def is_alpha_def

text \<open>
  \<^verbatim>\<open>STATE_SUPREME\<close> and \<^verbatim>\<open>CIRCUIT_COURT\<close> are the same member, so the display of
  \<^verbatim>\<open>COURT_PATTERNS\<close> writes the key twice: the dict keeps the state supreme court patterns under
  \<^verbatim>\<open>CIRCUIT_COURT\<close> and the three circuit court patterns are gone.
\<close>

lemma COURT_PATTERNS_effective:
  "COURT_PATTERNS =
     [(SUPREME_COURT, supreme_court_patterns), (CIRCUIT_COURT, state_supreme_patterns),
      (DISTRICT_COURT, district_court_patterns), (TRIAL_COURT, trial_court_patterns)]"
  by (simp add: COURT_PATTERNS_def COURT_PATTERNS_display_def dict_display_def AuthorityLevel_defs)

text \<open>
  Claim C1. A source whose \<^verbatim>\<open>court\<close> field matches a circuit court pattern of the table and no
  Supreme Court pattern should be detected as \<^verbatim>\<open>CIRCUIT_COURT\<close>. On a fresh ranker the court
  \<^verbatim>\<open>9th circuit\<close> matches the first circuit court pattern and no Supreme Court pattern, and
  \<^verbatim>\<open>detect_authority\<close> returns level \<^verbatim>\<open>DOCUMENT_EVIDENCE\<close> (7), not \<^verbatim>\<open>CIRCUIT_COURT\<close> (2).
\<close>

theorem C1_circuit_court_not_detected:
  "list_ex (pattern_hits (lower ''9th circuit'')) circuit_court_patterns
   \<and> \<not> list_ex (pattern_hits (lower ''9th circuit'')) supreme_court_patterns
   \<and> map_sum id (\<lambda>r. level (fst r))
        (detect_authority Map.empty (empty_source\<lparr>src_court := PyStr ''9th circuit''\<rparr>))
      = Inr DOCUMENT_EVIDENCE
   \<and> DOCUMENT_EVIDENCE \<noteq> CIRCUIT_COURT"
proof -
  have hit: "list_ex (pattern_hits (lower ''9th circuit'')) circuit_court_patterns"
    by (simp add: circuit_court_patterns_def regex_eval_defs)
  have miss: "\<not> list_ex (pattern_hits (lower ''9th circuit'')) supreme_court_patterns"
    by (simp add: supreme_court_patterns_def regex_eval_defs)
  have run: "map_sum id (\<lambda>r. level (fst r))
        (detect_authority Map.empty (empty_source\<lparr>src_court := PyStr ''9th circuit''\<rparr>))
      = Inr DOCUMENT_EVIDENCE"
    by code_simp
  have neq: "DOCUMENT_EVIDENCE \<noteq> CIRCUIT_COURT"
    by (simp add: AuthorityLevel_defs)
  from hit miss run neq show ?thesis by blast
qed

text \<open>A cache entry, once written, stays: \<^verbatim>\<open>detect_authority\<close> writes a key only when the
  key is not in the cache.\<close>

lemma detect_authority_keeps:
  "detect_authority cache src = Inr (i, cache') \<Longrightarrow> cache k = Some x \<Longrightarrow> cache' k = Some x"
  by (auto simp: detect_authority_def Let_def split: sum.splits option.splits if_splits)

lemma detect_each_keeps:
  "detect_each cache ss = Inr (is, cache') \<Longrightarrow> cache k = Some x \<Longrightarrow> cache' k = Some x"
proof (induction ss arbitrary: cache "is")
  case Nil then show ?case by simp
next
  case (Cons s ss)
  then show ?case
    by (auto split: sum.splits prod.splits dest: detect_authority_keeps)
qed

lemma detect_authority_stores:
  "detect_authority cache src = Inr (i, cache') \<Longrightarrow>
   \<exists>t c. get_lower (src_doc_title src) [] = Inr t \<and> get_lower (src_court src) [] = Inr c
         \<and> cache' (t @ '':'' @ c) = Some i"
  by (auto simp: detect_authority_def Let_def split: sum.splits option.splits)

lemma detect_authority_hit:
  "get_lower (src_doc_title src) [] = Inr t \<Longrightarrow> get_lower (src_court src) [] = Inr c \<Longrightarrow>
   src_quote src \<noteq> PyNone \<Longrightarrow> src_doc_type src \<noteq> PyNone \<Longrightarrow>
   cache (t @ '':'' @ c) = Some i \<Longrightarrow> detect_authority cache src = Inr (i, cache)"
  by (auto simp: detect_authority_def get_lower_def Let_def
           split: sum.splits option.splits pyfield.splits)

text \<open>
  Two calls of \<^verbatim>\<open>detect_authority\<close> on one ranker, with any calls in between, for sources whose
  \<^verbatim>\<open>doc_title\<close> and \<^verbatim>\<open>court\<close> are equal up to case: when the \<^verbatim>\<open>quote\<close> and \<^verbatim>\<open>doc_type\<close>
  of the second are strings or missing, the second call returns the \<^verbatim>\<open>AuthorityInfo\<close> of the
  first and leaves the cache as it is.
\<close>

lemma detect_authority_same_key:
  assumes "detect_authority cache src1 = Inr (info1, cache1)"
      and "detect_each cache1 between = Inr (infos, cache2)"
      and "get_lower (src_doc_title src2) [] = get_lower (src_doc_title src1) []"
      and "get_lower (src_court src2) [] = get_lower (src_court src1) []"
      and "src_quote src2 \<noteq> PyNone" and "src_doc_type src2 \<noteq> PyNone"
  shows "detect_authority cache2 src2 = Inr (info1, cache2)"
proof -
  from detect_authority_stores[OF assms(1)] obtain t c where
    t: "get_lower (src_doc_title src1) [] = Inr t" and c: "get_lower (src_court src1) [] = Inr c"
    and hit: "cache1 (t @ '':'' @ c) = Some info1" by blast
  have "cache2 (t @ '':'' @ c) = Some info1"
    using detect_each_keeps[OF assms(2) hit] .
  then show ?thesis
    using detect_authority_hit[of src2 t c cache2 info1] t c assms(3-6) by simp
qed

lemma detect_authority_same_key_example:
  "detect_authority
     [''smith v. jones:supreme court of the united states'' \<mapsto>
        make_info ''supreme court of the united states'' ''smith v. jones'' ''the court held'' []]
     \<lparr>src_doc_title = PyStr ''SMITH V. JONES'', src_court = PyStr ''supreme court of the United States'',
      src_quote = PyStr ''another quote'', src_doc_type = PyStr ''memo'', src_date = Absent\<rparr>
   = Inr (make_info ''supreme court of the united states'' ''smith v. jones'' ''the court held'' [],
      [''smith v. jones:supreme court of the united states'' \<mapsto>
        make_info ''supreme court of the united states'' ''smith v. jones'' ''the court held'' []])"
proof -
  have lw: "lower ''Smith v. Jones'' = ''smith v. jones''" "lower ''SMITH V. JONES'' = ''smith v. jones''"
    "lower ''Supreme Court of the United States'' = ''supreme court of the united states''"
    "lower ''supreme court of the United States'' = ''supreme court of the united states''"
    "lower ''the court held'' = ''the court held''" "lower [] = []"
    by (simp_all add: lower_def lower_char_def upper_chars_def lower_chars_def)
  have first: "detect_authority Map.empty scotus_source =
     Inr (make_info ''supreme court of the united states'' ''smith v. jones'' ''the court held'' [],
        [''smith v. jones:supreme court of the united states'' \<mapsto>
        make_info ''supreme court of the united states'' ''smith v. jones'' ''the court held'' []])"
    by (simp add: detect_authority_def scotus_source_def get_lower_def lw Let_def)
  have between: "detect_each [''smith v. jones:supreme court of the united states'' \<mapsto>
        make_info ''supreme court of the united states'' ''smith v. jones'' ''the court held'' []] []
      = Inr ([], [''smith v. jones:supreme court of the united states'' \<mapsto>
        make_info ''supreme court of the united states'' ''smith v. jones'' ''the court held'' []])"
    by simp
  show ?thesis
    by (rule detect_authority_same_key[OF first between]) (simp_all add: scotus_source_def get_lower_def lw)
qed

text \<open>
  Claim C8. A second call of \<^verbatim>\<open>detect_authority\<close> for a source with the same \<^verbatim>\<open>doc_title\<close>
  and \<^verbatim>\<open>court\<close> should return the \<^verbatim>\<open>AuthorityInfo\<close> of the first, whatever its \<^verbatim>\<open>quote\<close>
  and \<^verbatim>\<open>doc_type\<close>. With \<^verbatim>\<open>doc_type\<close> holding \<^verbatim>\<open>None\<close>, which is what
  \<^verbatim>\<open>_explain_pair_conflict\<close> passes for a provenance without a document type, the call raises
  \<^verbatim>\<open>AttributeError\<close> before it reads the cache, on any cache.
\<close>

theorem C8_none_doc_type_raises:
  "(\<exists>info1 cache1. detect_authority Map.empty scotus_source = Inr (info1, cache1))
   \<and> get_lower (src_doc_title (scotus_source\<lparr>src_doc_type := PyNone\<rparr>)) []
       = get_lower (src_doc_title scotus_source) []
   \<and> get_lower (src_court (scotus_source\<lparr>src_doc_type := PyNone\<rparr>)) []
       = get_lower (src_court scotus_source) []
   \<and> detect_authority cache (scotus_source\<lparr>src_doc_type := PyNone\<rparr>) = Inl AttributeError"
  by (simp add: detect_authority_def scotus_source_def get_lower_def Let_def)

lemma detect_authority_typed:
  "str_fields src \<Longrightarrow> \<exists>i cache'. detect_authority cache src = Inr (i, cache')"
  by (auto simp: detect_authority_def str_fields_def get_lower_def Let_def split: pyfield.splits option.splits)

lemma detect_authority_le:
  "detect_authority cache src = Inr (i, cache') \<Longrightarrow> cache \<subseteq>\<^sub>m cache'"
  by (auto simp: detect_authority_def Let_def map_le_def split: sum.splits option.splits if_splits)

lemma detect_authority_stable:
  assumes "detect_authority cache src = Inr (i, cache')" and "cache' \<subseteq>\<^sub>m cache''"
  shows "detect_authority cache'' src = Inr (i, cache'')"
proof -
  from assms(1) obtain t c q d where
    g: "get_lower (src_doc_title src) [] = Inr t" "get_lower (src_court src) [] = Inr c"
       "get_lower (src_quote src) [] = Inr q" "get_lower (src_doc_type src) [] = Inr d"
    and hit: "cache' (t @ '':'' @ c) = Some i"
    by (auto simp: detect_authority_def Let_def split: sum.splits option.splits)
  from hit assms(2) have "cache'' (t @ '':'' @ c) = Some i"
    by (auto simp: map_le_def dom_def)
  with g show ?thesis by (simp add: detect_authority_def)
qed

lemma authority_keys_spec:
  "authority_keys cache cs = Inr (ks, cache') \<Longrightarrow>
     cache \<subseteq>\<^sub>m cache' \<and>
     list_all2 (\<lambda>k c. \<exists>a. detect_authority cache' (get_source c) = Inr (a, cache')
                        \<and> k = (level a, \<not> binding a, date_key (src_date (get_source c)))) ks cs"
proof (induction cs arbitrary: cache ks)
  case Nil then show ?case by simp
next
  case (Cons c cs)
  from Cons.prems obtain k cache1 ks' where
    k: "get_authority_key cache c = Inr (k, cache1)"
    and rest: "authority_keys cache1 cs = Inr (ks', cache')" and ks: "ks = k # ks'"
    by (auto split: sum.splits prod.splits)
  from k obtain a where a: "detect_authority cache (get_source c) = Inr (a, cache1)"
    and kdef: "k = (level a, \<not> binding a, date_key (src_date (get_source c)))"
    by (auto simp: get_authority_key_def Let_def split: sum.splits prod.splits)
  from Cons.IH[OF rest] have le1: "cache1 \<subseteq>\<^sub>m cache'" and all: "list_all2 (\<lambda>k c. \<exists>a. detect_authority cache' (get_source c) = Inr (a, cache')
                        \<and> k = (level a, \<not> binding a, date_key (src_date (get_source c)))) ks' cs" by auto
  have "cache \<subseteq>\<^sub>m cache'" using detect_authority_le[OF a] le1 by (rule map_le_trans)
  moreover have "detect_authority cache' (get_source c) = Inr (a, cache')"
    using detect_authority_stable[OF a le1] .
  ultimately show ?case using all kdef ks by auto
qed

lemma authority_keys_typed:
  "\<forall>c \<in> set cs. str_fields (get_source c) \<Longrightarrow> \<exists>ks cache'. authority_keys cache cs = Inr (ks, cache')"
proof (induction cs arbitrary: cache)
  case Nil then show ?case by simp
next
  case (Cons c cs)
  from Cons.prems have "str_fields (get_source c)" by simp
  from detect_authority_typed[OF this, of cache] obtain a cache1 where
    "detect_authority cache (get_source c) = Inr (a, cache1)" by blast
  moreover from Cons obtain ks cache' where "authority_keys cache1 cs = Inr (ks, cache')"
    by (metis list.set_intros(2))
  ultimately show ?case by (simp add: get_authority_key_def Let_def)
qed


lemma py_sorted_typed:
  assumes "\<forall>kx \<in> set kxs. snd (snd (fst kx)) \<noteq> None"
  shows "py_sorted kxs = Inr (map snd (sort_key (\<lambda>kx. total_key (fst kx)) kxs))"
  using assms by (auto simp: py_sorted_def list_ex_iff keys_clash_def)

lemma detect_each_cached:
  "\<forall>s \<in> set ss. \<exists>a. detect_authority cache s = Inr (a, cache) \<Longrightarrow>
   \<exists>as. detect_each cache ss = Inr (as, cache)"
  by (induction ss) auto

lemma total_key_level: "total_key k \<le> total_key k' \<Longrightarrow> fst k \<le> fst k'"
  by (auto simp: total_key_def less_eq_prod_def)

lemma rank_constraints_spec:
  assumes typed: "\<forall>c \<in> set cs. str_fields (get_source c)"
  shows "\<exists>ks cache'. authority_keys cache cs = Inr (ks, cache')
           \<and> list_all2 (key_rel cache') ks cs
           \<and> rank_constraints cache cs
               = Inr (map snd (sort_key (\<lambda>kx. total_key (fst kx)) (zip ks cs)), cache')"
proof -
  from authority_keys_typed[OF typed, of cache] obtain ks cache' where
    ak: "authority_keys cache cs = Inr (ks, cache')" by blast
  from authority_keys_spec[OF ak] have rel: "list_all2 (key_rel cache') ks cs"
    unfolding key_rel_def by simp
  have "\<forall>kx \<in> set (zip ks cs). snd (snd (fst kx)) \<noteq> None"
  proof
    fix kx assume m: "kx \<in> set (zip ks cs)"
    obtain k c where kx: "kx = (k, c)" by (cases kx)
    with m rel have "key_rel cache' k c" by (auto simp: list_all2_iff)
    moreover from m kx have "c \<in> set cs" by (auto dest: set_zip_rightD)
    with typed have "src_date (get_source c) \<noteq> PyNone" by (simp add: str_fields_def)
    ultimately show "snd (snd (fst kx)) \<noteq> None"
      using kx by (auto simp: key_rel_def date_key_def split: pyfield.splits)
  qed
  from py_sorted_typed[OF this] ak rel show ?thesis
    by (simp add: rank_constraints_def)
qed


lemma sorted_hd_least: "sorted (map f xs) \<Longrightarrow> x \<in> set xs \<Longrightarrow> f (hd xs) \<le> f x"
  by (cases xs) auto

lemma sorted_last_greatest: "sorted (map f xs) \<Longrightarrow> x \<in> set xs \<Longrightarrow> f x \<le> f (last xs)"
proof (induction xs)
  case Nil then show ?case by simp
next
  case (Cons a xs)
  then show ?case by (cases xs) auto
qed

lemma resolve_conflict_many:
  fixes cs :: "'a rconstraint list"
  assumes len: "2 \<le> length cs" and typed: "\<forall>c \<in> set cs. str_fields (get_source c)"
  shows "\<exists>ranked cache' w_auth l_auth.
     rank_constraints cache cs = Inr (ranked, cache') \<and> ranked \<noteq> [] \<and> set ranked = set cs \<and>
     detect_authority cache' (get_source (hd ranked)) = Inr (w_auth, cache') \<and>
     detect_authority cache' (get_source (last ranked)) = Inr (l_auth, cache') \<and>
     (\<forall>c \<in> set cs. \<exists>a. detect_authority cache' (get_source c) = Inr (a, cache')
                         \<and> level w_auth \<le> level a \<and> level a \<le> level l_auth) \<and>
     (if level w_auth \<noteq> level l_auth then
        level w_auth < level l_auth \<and>
        (\<exists>h. resolve_conflict cache cs =
           Inr (\<lparr>resolved = True, winner = Some (hd ranked), loser = Some (last ranked),
                 reason = overrides_text w_auth l_auth, constraints = None,
                 recommendation = None, authority_hierarchy = Some h\<rparr>, cache'))
      else
        resolve_conflict cache cs =
           Inr (\<lparr>resolved = False, winner = None, loser = None,
                 reason = ''Same authority level ('' @ level_name (level w_auth) @ '')'',
                 constraints = Some ranked,
                 recommendation = Some ''Manual review required - same authority level'',
                 authority_hierarchy = None\<rparr>, cache'))"
proof -
  let ?f = "\<lambda>kx :: authority_key \<times> 'a rconstraint. total_key (fst kx)"
  from rank_constraints_spec[OF typed, of cache] obtain ks cache' where
    rel: "list_all2 (key_rel cache') ks cs"
    and rank: "rank_constraints cache cs = Inr (map snd (sort_key ?f (zip ks cs)), cache')"
    by blast
  define z where "z = sort_key ?f (zip ks cs)"
  define ranked where "ranked = map snd z"
  have lks: "length ks = length cs" using rel by (rule list_all2_lengthD)
  have setz: "set z = set (zip ks cs)" by (simp add: z_def)
  have lenz: "length z = length cs" using lks by (simp add: z_def)
  have sorted: "sorted (map ?f z)" by (simp add: z_def)
  have zne: "z \<noteq> []" using lenz len by auto
  have relz: "\<And>k c. (k, c) \<in> set z \<Longrightarrow> key_rel cache' k c"
    using rel setz by (auto simp: list_all2_iff)
  have set_ranked: "set ranked = set cs"
  proof -
    have "set ranked = snd ` set (zip ks cs)" by (simp add: ranked_def setz)
    also have "\<dots> = set (map snd (zip ks cs))" by simp
    also have "\<dots> = set cs" using lks by (simp add: map_snd_zip)
    finally show ?thesis .
  qed
  have rne: "ranked \<noteq> []" using zne by (simp add: ranked_def)
  obtain kw w where hdz: "hd z = (kw, w)" by (cases "hd z")
  obtain kl l where lastz: "last z = (kl, l)" by (cases "last z")
  have hd_in: "(kw, w) \<in> set z" using zne hdz by (metis hd_in_set)
  have last_in: "(kl, l) \<in> set z" using zne lastz by (metis last_in_set)
  have hdr: "hd ranked = w" using zne hdz by (simp add: ranked_def hd_map)
  have lastr: "last ranked = l" using zne lastz by (simp add: ranked_def last_map)
  from relz[OF hd_in] obtain w_auth where
    wa: "detect_authority cache' (get_source w) = Inr (w_auth, cache')" and kw: "fst kw = level w_auth"
    by (auto simp: key_rel_def)
  from relz[OF last_in] obtain l_auth where
    la: "detect_authority cache' (get_source l) = Inr (l_auth, cache')" and kl: "fst kl = level l_auth"
    by (auto simp: key_rel_def)
  have between: "\<forall>c \<in> set cs. \<exists>a. detect_authority cache' (get_source c) = Inr (a, cache')
                         \<and> level w_auth \<le> level a \<and> level a \<le> level l_auth"
  proof
    fix c assume "c \<in> set cs"
    then have "c \<in> set ranked" using set_ranked by simp
    then obtain k where kc: "(k, c) \<in> set z" by (auto simp: ranked_def)
    from relz[OF kc] obtain a where
      a: "detect_authority cache' (get_source c) = Inr (a, cache')" and k: "fst k = level a"
      by (auto simp: key_rel_def)
    have "?f (hd z) \<le> ?f (k, c)" using sorted kc by (rule sorted_hd_least)
    then have lo: "fst kw \<le> fst k" using hdz by (simp add: total_key_level)
    have "?f (k, c) \<le> ?f (last z)" using sorted kc by (rule sorted_last_greatest)
    then have hi: "fst k \<le> fst kl" using lastz by (simp add: total_key_level)
    from a lo hi k kw kl show "\<exists>a. detect_authority cache' (get_source c) = Inr (a, cache')
                         \<and> level w_auth \<le> level a \<and> level a \<le> level l_auth" by auto
  qed
  have wl: "level w_auth \<le> level l_auth"
  proof -
    have "w \<in> set cs" using hdr rne set_ranked by (metis hd_in_set)
    with between wa show ?thesis by fastforce
  qed
  have all_cached: "\<forall>s \<in> set (map get_source ranked). \<exists>a. detect_authority cache' s = Inr (a, cache')"
    using between set_ranked by auto
  from detect_each_cached[OF all_cached] obtain auths where
    de: "detect_each cache' (map get_source ranked) = Inr (auths, cache')" by blast
  obtain c1 c2 rest where cs: "cs = c1 # c2 # rest"
    using len by (cases cs; cases "tl cs") auto
  obtain r0 rtl where rk: "ranked = r0 # rtl" using rne by (cases ranked) auto
  have r0: "r0 = w" using hdr rk by simp
  have rank': "rank_constraints cache (c1 # c2 # rest) = Inr (r0 # rtl, cache')"
    using rank cs rk by (simp add: ranked_def z_def)
  have la': "detect_authority cache' (get_source (last (r0 # rtl))) = Inr (l_auth, cache')"
    using la lastr rk by simp
  have wa': "detect_authority cache' (get_source r0) = Inr (w_auth, cache')"
    using wa r0 by simp
  have de': "detect_each cache' (map get_source (r0 # rtl)) = Inr (auths, cache')"
    using de rk by simp
  have res: "resolve_conflict cache cs =
     (if level w_auth = level l_auth then
        Inr (\<lparr>resolved = False, winner = None, loser = None,
                 reason = ''Same authority level ('' @ level_name (level w_auth) @ '')'',
                 constraints = Some ranked,
                 recommendation = Some ''Manual review required - same authority level'',
                 authority_hierarchy = None\<rparr>, cache')
      else Inr (\<lparr>resolved = True, winner = Some (hd ranked), loser = Some (last ranked),
                 reason = overrides_text w_auth l_auth, constraints = None,
                 recommendation = None,
                 authority_hierarchy = Some (zip ranked (map (\<lambda>a. level_name (level a)) auths))\<rparr>, cache'))"
    unfolding resolve_conflict_def cs
    using rank' wa' la' de' by (simp add: rk Let_def del: last.simps detect_each.simps)
  show ?thesis
    apply (rule exI[of _ ranked], rule exI[of _ cache'], rule exI[of _ w_auth], rule exI[of _ l_auth])
    using rank rne set_ranked wa la between wl res hdr lastr
    by (auto simp: ranked_def z_def)
qed

text \<open>
  \<^verbatim>\<open>resolve_conflict\<close> on the empty list is unresolved with the reason that no
  constraints were provided; on a one-element list it is resolved and that constraint wins; on two
  or more constraints whose sources have string fields it ranks them, and with the authority of
  the first and of the last of the ranking (the least and the greatest level of all): if the
  levels differ the first wins, the last loses and the reason names the two levels; if they are
  equal it is unresolved, with the same-level reason, the ranked list and the recommendation of a
  manual review.
\<close>

lemma resolve_conflict_cases:
  fixes cs :: "'a rconstraint list"
  shows
  "resolve_conflict cache ([] :: 'a rconstraint list) =
     Inr (\<lparr>resolved = False, winner = None, loser = None, reason = ''No constraints provided'',
           constraints = None, recommendation = None, authority_hierarchy = None\<rparr>, cache)
   \<and> resolve_conflict cache [c :: 'a rconstraint] =
     Inr (\<lparr>resolved = True, winner = Some c, loser = None, reason = ''Only one constraint'',
           constraints = None, recommendation = None, authority_hierarchy = None\<rparr>, cache)
   \<and> (2 \<le> length cs \<and> (\<forall>c \<in> set cs. str_fields (get_source c)) \<longrightarrow>
      (\<exists>ranked cache' w_auth l_auth.
         rank_constraints cache cs = Inr (ranked, cache') \<and> ranked \<noteq> [] \<and> set ranked = set cs \<and>
         detect_authority cache' (get_source (hd ranked)) = Inr (w_auth, cache') \<and>
         detect_authority cache' (get_source (last ranked)) = Inr (l_auth, cache') \<and>
         (\<forall>c \<in> set cs. \<exists>a. detect_authority cache' (get_source c) = Inr (a, cache')
                             \<and> level w_auth \<le> level a \<and> level a \<le> level l_auth) \<and>
         (if level w_auth \<noteq> level l_auth then
            level w_auth < level l_auth \<and>
            (\<exists>h. resolve_conflict cache cs =
               Inr (\<lparr>resolved = True, winner = Some (hd ranked), loser = Some (last ranked),
                     reason = overrides_text w_auth l_auth, constraints = None,
                     recommendation = None, authority_hierarchy = Some h\<rparr>, cache'))
          else
            resolve_conflict cache cs =
               Inr (\<lparr>resolved = False, winner = None, loser = None,
                     reason = ''Same authority level ('' @ level_name (level w_auth) @ '')'',
                     constraints = Some ranked,
                     recommendation = Some ''Manual review required - same authority level'',
                     authority_hierarchy = None\<rparr>, cache'))))"
proof -
  have many: "2 \<le> length cs \<and> (\<forall>c \<in> set cs. str_fields (get_source c)) \<longrightarrow>
      (\<exists>ranked cache' w_auth l_auth.
         rank_constraints cache cs = Inr (ranked, cache') \<and> ranked \<noteq> [] \<and> set ranked = set cs \<and>
         detect_authority cache' (get_source (hd ranked)) = Inr (w_auth, cache') \<and>
         detect_authority cache' (get_source (last ranked)) = Inr (l_auth, cache') \<and>
         (\<forall>c \<in> set cs. \<exists>a. detect_authority cache' (get_source c) = Inr (a, cache')
                             \<and> level w_auth \<le> level a \<and> level a \<le> level l_auth) \<and>
         (if level w_auth \<noteq> level l_auth then
            level w_auth < level l_auth \<and>
            (\<exists>h. resolve_conflict cache cs =
               Inr (\<lparr>resolved = True, winner = Some (hd ranked), loser = Some (last ranked),
                     reason = overrides_text w_auth l_auth, constraints = None,
                     recommendation = None, authority_hierarchy = Some h\<rparr>, cache'))
          else
            resolve_conflict cache cs =
               Inr (\<lparr>resolved = False, winner = None, loser = None,
                     reason = ''Same authority level ('' @ level_name (level w_auth) @ '')'',
                     constraints = Some ranked,
                     recommendation = Some ''Manual review required - same authority level'',
                     authority_hierarchy = None\<rparr>, cache')))"
    using resolve_conflict_many[of cs cache] by blast
  show ?thesis
    by (rule conjI, simp add: resolve_conflict_def, rule conjI, simp add: resolve_conflict_def,
        rule many)
qed

lemma lower_samples: "lower ''Smith v. Jones'' = ''smith v. jones''"
    "lower ''Supreme Court of the United States'' = ''supreme court of the united states''"
    "lower ''the court held'' = ''the court held''" "lower [] = []"
    "lower ''People v. Doe'' = ''people v. doe''" "lower ''Superior Court'' = ''superior court''"
    by (simp_all add: lower_def lower_char_def upper_chars_def lower_chars_def)

lemma sample_infos: "level (make_info ''supreme court of the united states'' ''smith v. jones'' ''the court held'' []) = 1"
   "level (make_info ''superior court'' ''people v. doe'' [] []) = 4"
   "court_name (make_info ''supreme court of the united states'' ''smith v. jones'' ''the court held'' []) = Some ''supreme court of the united states''"
   "court_name (make_info ''superior court'' ''people v. doe'' [] []) = Some ''superior court''"
   "binding (make_info ''supreme court of the united states'' ''smith v. jones'' ''the court held'' [])"
   "\<not> binding (make_info ''superior court'' ''people v. doe'' [] [])"
  by code_simp+

lemma sample_level_names: "level_name 1 = ''SUPREME_COURT''" "level_name 4 = ''TRIAL_COURT''"
  by (simp_all add: level_name_def AuthorityLevel_members_def AuthorityLevel_defs)

lemma resolve_conflict_cases_example:
  "\<exists>h cache'. resolve_conflict Map.empty [trial_constraint, scotus_constraint] =
     Inr (\<lparr>resolved = True, winner = Some scotus_constraint, loser = Some trial_constraint,
           reason = ''SUPREME_COURT (supreme court of the united states) overrides TRIAL_COURT (superior court)'',
           constraints = None, recommendation = None, authority_hierarchy = Some h\<rparr>, cache')"
proof -
  let ?cs = "[trial_constraint, scotus_constraint]"
  let ?si = "make_info ''supreme court of the united states'' ''smith v. jones'' ''the court held'' []"
  let ?ti = "make_info ''superior court'' ''people v. doe'' [] []"
  have typed: "2 \<le> length ?cs \<and> (\<forall>c \<in> set ?cs. str_fields (get_source c))"
    by (simp add: trial_constraint_def scotus_constraint_def get_source_def str_fields_def
        trial_source_def scotus_source_def)
  from resolve_conflict_cases[of Map.empty _ ?cs] typed
  obtain ranked cache' w_auth l_auth where
    rank: "rank_constraints Map.empty ?cs = Inr (ranked, cache')" and
    wa: "detect_authority cache' (get_source (hd ranked)) = Inr (w_auth, cache')" and
    la: "detect_authority cache' (get_source (last ranked)) = Inr (l_auth, cache')" and
    res: "(if level w_auth \<noteq> level l_auth then
            level w_auth < level l_auth \<and>
            (\<exists>h. resolve_conflict Map.empty ?cs =
               Inr (\<lparr>resolved = True, winner = Some (hd ranked), loser = Some (last ranked),
                     reason = overrides_text w_auth l_auth, constraints = None,
                     recommendation = None, authority_hierarchy = Some h\<rparr>, cache'))
          else
            resolve_conflict Map.empty ?cs =
               Inr (\<lparr>resolved = False, winner = None, loser = None,
                     reason = ''Same authority level ('' @ level_name (level w_auth) @ '')'',
                     constraints = Some ranked,
                     recommendation = Some ''Manual review required - same authority level'',
                     authority_hierarchy = None\<rparr>, cache'))"
    by blast
  have keys: "authority_keys Map.empty ?cs =
      Inr ([(4, True, Some ''2001-05-05''), (1, False, Some ''9999'')],
           [''people v. doe:superior court'' \<mapsto> ?ti, ''smith v. jones:supreme court of the united states'' \<mapsto> ?si])"
    by (simp add: get_authority_key_def detect_authority_def trial_constraint_def scotus_constraint_def
        get_source_def trial_source_def scotus_source_def get_lower_def lower_samples Let_def date_key_def sample_infos
        )
  have cache': "cache' = [''people v. doe:superior court'' \<mapsto> ?ti, ''smith v. jones:supreme court of the united states'' \<mapsto> ?si]"
    and ranked: "ranked = [scotus_constraint, trial_constraint]"
    using rank keys by (simp_all add: rank_constraints_def py_sorted_def keys_clash_def total_key_def less_eq_prod_def)
  have w_auth: "w_auth = ?si"
    using wa unfolding cache' ranked
    by (simp add: detect_authority_def scotus_constraint_def get_source_def scotus_source_def get_lower_def lower_samples Let_def)
  have l_auth: "l_auth = ?ti"
    using la unfolding cache' ranked
    by (simp add: detect_authority_def trial_constraint_def get_source_def trial_source_def get_lower_def lower_samples Let_def)
  from res have "\<exists>h. resolve_conflict Map.empty ?cs =
     Inr (\<lparr>resolved = True, winner = Some scotus_constraint, loser = Some trial_constraint,
           reason = ''SUPREME_COURT (supreme court of the united states) overrides TRIAL_COURT (superior court)'',
           constraints = None, recommendation = None, authority_hierarchy = Some h\<rparr>, cache')"
    unfolding w_auth l_auth ranked
    by (simp add: sample_infos sample_level_names overrides_text_def fmt_opt_def)
  then show ?thesis by blast
qed

text \<open>
  Claim C5. On two or more constraints \<^verbatim>\<open>resolve_conflict\<close> should rank them and compare the
  first and the last. When the source of one of them holds \<^verbatim>\<open>None\<close> for its court, the call
  raises \<^verbatim>\<open>AttributeError\<close> while it ranks, on any cache.
\<close>

theorem C5_none_court_raises:
  "resolve_conflict cache [trial_constraint, none_court_constraint] = Inl AttributeError"
proof -
  have "str_fields (get_source trial_constraint)"
    by (simp add: trial_constraint_def get_source_def trial_source_def str_fields_def)
  from detect_authority_typed[OF this, of cache] obtain a cache1 where
    first: "detect_authority cache (get_source trial_constraint) = Inr (a, cache1)" by blast
  have second: "detect_authority cache1 (get_source none_court_constraint) = Inl AttributeError"
    by (simp add: detect_authority_def none_court_constraint_def get_source_def
          source_of_provenance_def bare_provenance_def opt_field_def get_lower_def)
  have "authority_keys cache [trial_constraint, none_court_constraint] = Inl AttributeError"
    using first second by (simp add: get_authority_key_def Let_def)
  then show ?thesis
    by (simp add: resolve_conflict_def rank_constraints_def)
qed

section \<open>Properties of the extractor\<close>

lemma dedup_set: "logic_form ` set (dedup_loop seen cs) = logic_form ` set cs - seen"
  by (induction cs arbitrary: seen) auto

lemma dedup_distinct: "distinct (map logic_form (dedup_loop seen cs))"
proof (induction cs arbitrary: seen)
  case Nil show ?case by simp
next
  case (Cons c cs)
  have "logic_form c \<notin> logic_form ` set (dedup_loop (insert (logic_form c) seen) cs)"
    by (simp add: dedup_set)
  with Cons show ?case by simp
qed

lemma dedup_skips_seen: "c \<in> set (dedup_loop seen cs) \<Longrightarrow> logic_form c \<notin> seen"
  using dedup_set[of seen cs] by blast

lemma dedup_first: "c \<in> set (dedup_loop seen cs) \<Longrightarrow> find (\<lambda>d. logic_form d = logic_form c) cs = Some c"
proof (induction cs arbitrary: seen)
  case Nil then show ?case by simp
next
  case (Cons a cs)
  have notin: "logic_form c \<notin> seen"
    using Cons.prems by (rule dedup_skips_seen)
  show ?case
  proof (cases "logic_form a = logic_form c")
    case True
    have "c \<notin> set (dedup_loop (insert (logic_form a) seen) cs)"
    proof
      assume "c \<in> set (dedup_loop (insert (logic_form a) seen) cs)"
      then have "logic_form c \<notin> insert (logic_form a) seen" by (rule dedup_skips_seen)
      then show False using True by simp
    qed
    moreover have "dedup_loop seen (a # cs) = a # dedup_loop (insert (logic_form a) seen) cs"
      using notin True by simp
    ultimately have "c = a" using Cons.prems by simp
    then show ?thesis by simp
  next
    case False
    have "\<exists>seen'. c \<in> set (dedup_loop seen' cs)"
    proof (cases "logic_form a \<in> seen")
      case True
      with Cons.prems show ?thesis by auto
    next
      case notseen: False
      then have "dedup_loop seen (a # cs) = a # dedup_loop (insert (logic_form a) seen) cs" by simp
      with Cons.prems False have "c \<in> set (dedup_loop (insert (logic_form a) seen) cs)" by auto
      then show ?thesis by blast
    qed
    then have "find (\<lambda>d. logic_form d = logic_form c) cs = Some c"
      using Cons.IH by blast
    with False show ?thesis by simp
  qed
qed

text \<open>
  Claim C7. The list that \<^verbatim>\<open>extract_constraints\<close> returns has no two constraints with the same
  \<^verbatim>\<open>logic_form\<close>; it has every logic form that the findings produced; and each constraint in it
  is the first one with its logic form among the constraints produced, in the order of the
  findings.
\<close>

theorem C7_dedup_first_wins:
  "distinct (map logic_form (fst (extract_constraints llm findings st)))
   \<and> logic_form ` set (fst (extract_constraints llm findings st))
       = logic_form ` set (fst (extract_all llm findings st))
   \<and> (\<forall>c \<in> set (fst (extract_constraints llm findings st)).
         find (\<lambda>d. logic_form d = logic_form c) (fst (extract_all llm findings st)) = Some c)"
  by (simp add: extract_constraints_def split_beta dedup_distinct dedup_set dedup_first)

theorem C7_witness:
  "map cid (fst (extract_all sample_llm [sample_finding, sample_finding] (0, ()))) = [''c_1'', ''c_2'']
   \<and> map logic_form (fst (extract_all sample_llm [sample_finding, sample_finding] (0, ())))
       = [''a == True'', ''a == True'']
   \<and> map cid (fst (extract_constraints sample_llm [sample_finding, sample_finding] (0, ()))) = [''c_1'']
   \<and> find (\<lambda>d. logic_form d = ''a == True'')
         (fst (extract_all sample_llm [sample_finding, sample_finding] (0, ())))
       = Some (hd (fst (extract_constraints sample_llm [sample_finding, sample_finding] (0, ()))))"
proof -
  let ?all = "fst (extract_all sample_llm [sample_finding, sample_finding] (0, ()))"
  let ?res = "fst (extract_constraints sample_llm [sample_finding, sample_finding] (0, ()))"
  have a: "map cid ?all = [''c_1'', ''c_2'']"
    by code_simp
  have l: "map logic_form ?all = [''a == True'', ''a == True'']"
    by code_simp
  have b: "map cid ?res = [''c_1'']"
    by code_simp
  have k: "map logic_form ?res = [''a == True'']"
    by code_simp
  from b have ne: "?res \<noteq> []" by auto
  then have mem: "hd ?res \<in> set ?res" by simp
  from k ne have lf: "logic_form (hd ?res) = ''a == True''"
    by (cases ?res) auto
  from C7_dedup_first_wins[of sample_llm "[sample_finding, sample_finding]" "(0, ())"] mem
  have "find (\<lambda>d. logic_form d = logic_form (hd ?res)) ?all = Some (hd ?res)"
    by blast
  with lf a l b show ?thesis by simp
qed

section \<open>Properties of the conflict explainer\<close>












text \<open>
  Claim C10. When one of the two constraints of a pair has no provenance,
  \<^verbatim>\<open>_explain_pair_conflict\<close> returns an explanation with no authority resolution and
  \<^verbatim>\<open>resolution_available\<close> false, and does not consult the ranker, whatever the source of the
  other side is.
\<close>

theorem C10_no_provenance_no_resolution:
  "provenance c_a = None \<or> provenance c_b = None \<Longrightarrow>
   \<exists>ce. explain_pair_conflict cache c_a c_b = Inr (ce, cache)
        \<and> authority_resolution ce = None \<and> \<not> resolution_available ce
        \<and> constraint_a ce = to_dict c_a \<and> constraint_b ce = to_dict c_b"
  by (auto simp: explain_pair_conflict_def pair_authority_def split: option.splits)

theorem C10_witness:
  "(provenance c1_X_true = None \<or> provenance (c2_X_false\<lparr>provenance := Some scotus_provenance\<rparr>) = None)
   \<and> (\<exists>ce. explain_pair_conflict Map.empty c1_X_true (c2_X_false\<lparr>provenance := Some scotus_provenance\<rparr>)
             = Inr (ce, Map.empty)
          \<and> authority_resolution ce = None \<and> \<not> resolution_available ce)"
proof -
  have h: "provenance c1_X_true = None \<or> provenance (c2_X_false\<lparr>provenance := Some scotus_provenance\<rparr>) = None"
    by (simp add: c1_X_true_def)
  from C10_no_provenance_no_resolution[OF h, of Map.empty] h show ?thesis by blast
qed

section \<open>Properties of the validator\<close>

text \<open>The reference solver keeps the promises of the solver.\<close>

lemma z3_eval_cong:
  "(\<And>n. n \<in> set (z3_names e) \<Longrightarrow> m n = m' n) \<Longrightarrow> z3_eval m e = z3_eval m' e"
  by (induction e) auto

lemma filter_in_subseqs: "filter P xs \<in> set (subseqs xs)"
  by (induction xs) (auto simp: Let_def)

lemma tracked_names_mem:
  "(e, p) \<in> set ts \<Longrightarrow> p \<in> set (tracked_names ts) \<and> set (z3_names e) \<subseteq> set (tracked_names ts)"
  by (auto simp: tracked_names_def)

lemma reference_solver_sound: "z3_sound reference_solver"
  unfolding z3_sound_def
proof (intro allI conjI impI)
  fix ts m assume "reference_solver ts = Inr (Sat m)"
  then obtain trues where f: "find (satisfies_all ts) (subseqs (tracked_names ts)) = Some trues"
    and m: "m = assignment_of trues"
    by (auto simp: reference_solver_def split: option.splits)
  from f have sat: "satisfies_all ts trues" by (auto simp: find_Some_iff)
  then show "tracked_hold m ts"
    by (auto simp: satisfies_all_def tracked_hold_def list_all_iff m)
  from sat show "\<forall>p \<in> snd ` set ts. m p"
    by (auto simp: satisfies_all_def list_all_iff m assignment_of_def)
next
  fix ts core assume u: "reference_solver ts = Inr (Unsat core)"
  then have none: "find (satisfies_all ts) (subseqs (tracked_names ts)) = None"
    and core: "core = remdups (map snd ts)"
    by (auto simp: reference_solver_def split: option.splits)
  show "set core \<subseteq> snd ` set ts" by (simp add: core)
  show "distinct core" by (simp add: core)
  show "\<not> (\<exists>m. tracked_hold m ts \<and> (\<forall>p \<in> set core. m p))"
  proof
    assume "\<exists>m. tracked_hold m ts \<and> (\<forall>p \<in> set core. m p)"
    then obtain m where h: "tracked_hold m ts" and c: "\<forall>p \<in> set core. m p" by blast
    let ?S = "filter m (tracked_names ts)"
    have "satisfies_all ts ?S"
      unfolding satisfies_all_def list_all_iff
    proof
      fix x assume x: "x \<in> set ts"
      obtain e p where xp: "x = (e, p)" by (cases x)
      from x xp have pin: "p \<in> set (tracked_names ts)" and ein: "set (z3_names e) \<subseteq> set (tracked_names ts)"
        using tracked_names_mem by blast+
      from x xp c have mp: "m p" by (force simp: core)
      with h x xp have "z3_eval m e" by (auto simp: tracked_hold_def)
      moreover have "z3_eval (assignment_of ?S) e = z3_eval m e"
        by (rule z3_eval_cong) (use ein in \<open>auto simp: assignment_of_def\<close>)
      ultimately show "case x of (e, p) \<Rightarrow> p \<in> set ?S \<and> z3_eval (assignment_of ?S) e"
        using xp pin mp by simp
    qed
    moreover have "?S \<in> set (subseqs (tracked_names ts))" by (rule filter_in_subseqs)
    ultimately show False using none by (auto simp: find_None_iff)
  qed
qed

lemma reference_solver_decides: "z3_decides reference_solver"
  by (auto simp: z3_decides_def reference_solver_def split: option.splits)

lemma parse_X_true:
  "parse_logic_to_z3 ev ''X == True'' [''X''] = (ParsedExpr (Z3Bool ''X''), [''X''])"
  by (simp add: parse_logic_to_z3_def eq_pattern_def the_group_def declare_var_def regex_eval_defs
        Let_def)

lemma parse_X_false:
  "parse_logic_to_z3 ev ''X == False'' [''X''] = (ParsedExpr (Z3Not (Z3Bool ''X'')), [''X''])"
  by (simp add: parse_logic_to_z3_def eq_pattern_def the_group_def declare_var_def regex_eval_defs
        Let_def)

lemma explainable_returns:
  "explainable c_a c_b \<Longrightarrow> \<exists>ce cache'. explain_pair_conflict cache c_a c_b = Inr (ce, cache')"
  by (auto simp: explainable_def explain_pair_conflict_def pair_authority_def typed_provenance_def
        detect_authority_def source_of_provenance_def get_lower_def opt_field_def Let_def
      split: option.splits sum.splits)

lemma explainable_sym: "explainable c_a c_b \<Longrightarrow> explainable c_b c_a"
  by (auto simp: explainable_def split: option.splits)

lemma X_core:
  assumes sound: "z3_sound solve" and dec: "z3_decides solve"
  shows "\<exists>core. solve [(Z3Bool ''X'', ''c1''), (Z3Not (Z3Bool ''X''), ''c2'')] = Inr (Unsat core)
           \<and> (core = [''c1'', ''c2''] \<or> core = [''c2'', ''c1''])"
proof -
  let ?ts = "[(Z3Bool ''X'', ''c1''), (Z3Not (Z3Bool ''X''), ''c2'')]"
  have "distinct (map snd ?ts)" by simp
  with dec have "(\<exists>m. solve ?ts = Inr (Sat m)) \<or> (\<exists>core. solve ?ts = Inr (Unsat core))"
    unfolding z3_decides_def by blast
  moreover have "\<not> (\<exists>m. solve ?ts = Inr (Sat m))"
  proof
    assume "\<exists>m. solve ?ts = Inr (Sat m)"
    then obtain m where "solve ?ts = Inr (Sat m)" by blast
    with sound have "tracked_hold m ?ts \<and> (\<forall>p \<in> snd ` set ?ts. m p)"
      unfolding z3_sound_def by blast
    then show False by (auto simp: tracked_hold_def)
  qed
  ultimately obtain core where core: "solve ?ts = Inr (Unsat core)" by blast
  with sound have sub: "set core \<subseteq> snd ` set ?ts" and dist: "distinct core"
    and unsat: "\<not> (\<exists>m. tracked_hold m ?ts \<and> (\<forall>p \<in> set core. m p))"
    unfolding z3_sound_def by blast+
  have c1: "''c1'' \<in> set core"
  proof (rule ccontr)
    assume "''c1'' \<notin> set core"
    with sub have "set core \<subseteq> {''c2''}" by auto
    then have "tracked_hold (\<lambda>n. n = ''c2'') ?ts \<and> (\<forall>p \<in> set core. (\<lambda>n. n = ''c2'') p)"
      by (auto simp: tracked_hold_def)
    with unsat show False by blast
  qed
  have c2: "''c2'' \<in> set core"
  proof (rule ccontr)
    assume "''c2'' \<notin> set core"
    with sub have "set core \<subseteq> {''c1''}" by auto
    then have "tracked_hold (\<lambda>n. n = ''c1'' \<or> n = ''X'') ?ts
               \<and> (\<forall>p \<in> set core. (\<lambda>n. n = ''c1'' \<or> n = ''X'') p)"
      by (auto simp: tracked_hold_def)
    with unsat show False by blast
  qed
  from sub c1 c2 have set: "set core = {''c1'', ''c2''}" by auto
  have "length core = card (set core)" using dist by (simp add: distinct_card)
  also have "\<dots> = 2" using set by simp
  finally have "length core = 2" .
  then obtain a b where ab: "core = [a, b]"
    by (cases core; cases "tl core") auto
  from set ab have "{a, b} = {''c1'', ''c2''}" by simp
  then have "(a = ''c1'' \<and> b = ''c2'') \<or> (a = ''c2'' \<and> b = ''c1'')"
    unfolding doubleton_eq_iff .
  with ab core show ?thesis by blast
qed


lemma explain_two:
  assumes "explainable a b" and "constraint_db v i = Some a" and "constraint_db v j = Some b"
  shows "\<exists>cfs v'. explain_conflicts v [i, j] = Inr (cfs, v')"
proof -
  from explainable_returns[OF assms(1), of "authority_ranker v"] obtain ce cache' where
    "explain_pair_conflict (authority_ranker v) a b = Inr (ce, cache')" by blast
  then show ?thesis
    using assms(2,3) by (simp add: explain_conflicts_def List.map_filter_simps)
qed

text \<open>
  For two hard constraints with ids \<^verbatim>\<open>c1\<close> and \<^verbatim>\<open>c2\<close>, both on the variable
  \<^verbatim>\<open>X\<close>, with logic forms \<^verbatim>\<open>X == True\<close> and \<^verbatim>\<open>X == False\<close>, \<^verbatim>\<open>validate_consistency\<close>
  returns a result that is not satisfiable, with status \<^verbatim>\<open>unsat\<close> and a core that holds exactly
  the two ids. The solver is any solver that keeps its promises; the pair is one that the
  explainer can explain without a raise (no provenance on one side, as in the claim, or string
  fields on both).
\<close>

lemma validate_contradiction_unsat_core:
  assumes sound: "z3_sound solve" and dec: "z3_decides solve"
      and c1: "cid c1 = ''c1''" "variables c1 = [''X'']" "logic_form c1 = ''X == True''" "is_hard c1"
      and c2: "cid c2 = ''c2''" "variables c2 = [''X'']" "logic_form c2 = ''X == False''" "is_hard c2"
      and ex: "explainable c1 c2"
  shows "\<exists>res v' core. validate_consistency ev solve v [c1, c2] include_soft = Inr (res, v')
           \<and> \<not> satisfiable res \<and> status res = ''unsat'' \<and> model res = None
           \<and> unsat_core res = Some core
           \<and> (core = [''c1'', ''c2''] \<or> core = [''c2'', ''c1''])"
proof -
  let ?ts = "[(Z3Bool ''X'', ''c1''), (Z3Not (Z3Bool ''X''), ''c2'')]"
  let ?v1 = "store_constraints [c1, c2] v"
  have active: "filter (\<lambda>c. include_soft \<or> is_hard c) [c1, c2] = [c1, c2]"
    using c1 c2 by simp
  have decl: "declare_all [c1, c2] = [''X'']"
    using c1 c2 by (simp add: declare_all_def declare_var_def)
  have track: "track_all ev [c1, c2] [''X''] = Inr (?ts, [''X''])"
    using c1 c2 by (simp add: parse_X_true parse_X_false)
  from X_core[OF sound dec] obtain core where
    core: "solve ?ts = Inr (Unsat core)" and shape: "core = [''c1'', ''c2''] \<or> core = [''c2'', ''c1'']"
    by blast
  have db1: "constraint_db ?v1 ''c1'' = Some c1" and db2: "constraint_db ?v1 ''c2'' = Some c2"
    using c1 c2 by (simp_all add: store_constraints_def)
  have "\<exists>cfs v'. explain_conflicts ?v1 core = Inr (cfs, v')"
    using shape
  proof
    assume "core = [''c1'', ''c2'']"
    then show ?thesis using explain_two[OF ex db1 db2] by simp
  next
    assume "core = [''c2'', ''c1'']"
    then show ?thesis using explain_two[OF explainable_sym[OF ex] db2 db1] by simp
  qed
  then obtain cfs v' where expl: "explain_conflicts ?v1 core = Inr (cfs, v')" by blast
  have "validate_consistency ev solve v [c1, c2] include_soft =
        Inr (\<lparr>satisfiable = False, status = ''unsat'', model = None, unsat_core = Some core,
              explanation = ''Found '' @ str_nat (length core) @ '' conflicting constraints'',
              conflicts = Some cfs\<rparr>, v')"
    unfolding validate_consistency_def
    by (simp add: active decl track core expl Let_def del: track_all.simps filter.simps)
  with shape show ?thesis by auto
qed

lemma validate_contradiction_example:
  "\<exists>res v' core.
     validate_consistency sample_evaluator reference_solver fresh_validator
       [c1_X_true, c2_X_false] False = Inr (res, v')
     \<and> \<not> satisfiable res \<and> status res = ''unsat'' \<and> model res = None
     \<and> unsat_core res = Some core
     \<and> (core = [''c1'', ''c2''] \<or> core = [''c2'', ''c1''])"
  by (rule validate_contradiction_unsat_core[OF reference_solver_sound reference_solver_decides])
     (simp_all add: c1_X_true_def c2_X_false_def explainable_def)

lemma reference_solver_X:
  "reference_solver [(Z3Bool ''X'', ''c1''), (Z3Not (Z3Bool ''X''), ''c2'')]
     = Inr (Unsat [''c1'', ''c2''])"
  by (simp add: reference_solver_def tracked_names_def satisfies_all_def assignment_of_def Let_def)

text \<open>
  Claim C2. The two constraints should give an unsatisfiable result with the core \<^verbatim>\<open>c1\<close>,
  \<^verbatim>\<open>c2\<close>. When both carry a provenance whose \<^verbatim>\<open>court\<close> is \<^verbatim>\<open>None\<close>, as the extractor makes
  it for a finding that names no court, the solver answers unsat with that core, and the
  explanation of the pair raises \<^verbatim>\<open>AttributeError\<close>: no result is returned.
\<close>

theorem C2_provenance_without_court_raises:
  "validate_consistency ev reference_solver v
     [c1_X_true\<lparr>provenance := Some bare_provenance\<rparr>,
      c2_X_false\<lparr>provenance := Some bare_provenance\<rparr>] include_soft
   = Inl AttributeError"
proof -
  let ?c1 = "c1_X_true\<lparr>provenance := Some bare_provenance\<rparr>"
  let ?c2 = "c2_X_false\<lparr>provenance := Some bare_provenance\<rparr>"
  let ?v1 = "store_constraints [?c1, ?c2] v"
  have active: "filter (\<lambda>c. include_soft \<or> is_hard c) [?c1, ?c2] = [?c1, ?c2]"
    by (simp add: c1_X_true_def c2_X_false_def)
  have decl: "declare_all [?c1, ?c2] = [''X'']"
    by (simp add: declare_all_def declare_var_def c1_X_true_def c2_X_false_def)
  have track: "track_all ev [?c1, ?c2] [''X'']
                 = Inr ([(Z3Bool ''X'', ''c1''), (Z3Not (Z3Bool ''X''), ''c2'')], [''X''])"
    by (simp add: parse_X_true parse_X_false c1_X_true_def c2_X_false_def)
  have db: "List.map_filter (constraint_db ?v1) [''c1'', ''c2''] = [?c1, ?c2]"
    by (simp add: store_constraints_def List.map_filter_simps c1_X_true_def c2_X_false_def)
  have raise: "detect_authority cache (source_of_provenance bare_provenance) = Inl AttributeError"
    for cache
    by (simp add: detect_authority_def source_of_provenance_def bare_provenance_def opt_field_def
          get_lower_def)
  have pair: "explain_pair_conflict cache ?c1 ?c2 = Inl AttributeError" for cache
    by (simp add: explain_pair_conflict_def pair_authority_def raise)
  have expl: "explain_conflicts ?v1 [''c1'', ''c2''] = Inl AttributeError"
    unfolding explain_conflicts_def db by (simp add: pair)
  show ?thesis
    unfolding validate_consistency_def
    by (simp add: active decl track reference_solver_X expl Let_def
             del: track_all.simps filter.simps)
qed
















text \<open>
  Claim C4. A logic form that cannot be turned into a Boolean expression should be left out
  without a raise. The logic form \<^verbatim>\<open>5\<close> matches none of the patterns and \<^verbatim>\<open>eval\<close> returns
  the integer 5; the parser returns it, it is not \<^verbatim>\<open>None\<close>, and \<^verbatim>\<open>assert_and_track\<close> raises:
  the validation of the other constraint is given up.
\<close>

theorem C4_non_boolean_object_raises:
  "parse_logic_to_z3 sample_evaluator ''5'' z3_vars = (ParsedOther, z3_vars)
   \<and> validate_consistency sample_evaluator solve v [c1_X_true, five_constraint] include_soft
       = Inl Z3Exception"
proof -
  have p5: "\<And>z3_vars. parse_logic_to_z3 sample_evaluator ''5'' z3_vars = (ParsedOther, z3_vars)"
    by (simp add: parse_logic_to_z3_def eq_pattern_def neq_pattern_def not_pattern_def
          binary_pattern_def sample_evaluator_def regex_eval_defs)
  have px: "\<And>z3_vars. fst (parse_logic_to_z3 sample_evaluator ''X == True'' z3_vars)
              = ParsedExpr (Z3Bool ''X'')"
    by (simp add: parse_logic_to_z3_def eq_pattern_def the_group_def regex_eval_defs Let_def)
  have "track_all sample_evaluator [c1_X_true, five_constraint] z3_vars = Inl Z3Exception"
    for z3_vars
    using px[of z3_vars] p5
    by (cases "parse_logic_to_z3 sample_evaluator ''X == True'' z3_vars")
       (simp add: c1_X_true_def five_constraint_def)
  then have "validate_consistency sample_evaluator solve v [c1_X_true, five_constraint]
               include_soft = Inl Z3Exception"
    by (simp add: validate_consistency_def c1_X_true_def five_constraint_def Let_def
             del: track_all.simps)
  with p5 show ?thesis by blast
qed

section \<open>Pattern extraction and the validator\<close>

text \<open>Decimal numerals: digits only, never empty, one numeral per number.\<close>

lemma digit_char_is_digit: "d < 10 \<Longrightarrow> is_digit (digit_char d)"
  unfolding is_digit_def digit_char_def by (rule nth_mem) (simp add: digit_chars_def)

lemma str_nat_digits: "\<forall>x \<in> set (str_nat n). is_digit x"
proof (induction n rule: str_nat.induct)
  case (1 n)
  show ?case
  proof (cases "n < 10")
    case True
    then show ?thesis by (subst str_nat.simps) (simp add: digit_char_is_digit)
  next
    case False
    with 1 have "\<forall>x \<in> set (str_nat (n div 10)). is_digit x" by simp
    moreover have "is_digit (digit_char (n mod 10))" by (rule digit_char_is_digit) simp
    ultimately show ?thesis using False by (subst str_nat.simps) simp
  qed
qed

lemma str_nat_nonempty: "str_nat n \<noteq> []"
  by (subst str_nat.simps) simp

lemma digit_char_inj: "a < 10 \<Longrightarrow> b < 10 \<Longrightarrow> digit_char a = digit_char b \<Longrightarrow> a = b"
proof -
  assume a: "a < 10" and b: "b < 10" and e: "digit_char a = digit_char b"
  have d: "distinct digit_chars" by (simp add: digit_chars_def)
  have l: "length digit_chars = 10" by (simp add: digit_chars_def)
  from e show "a = b" unfolding digit_char_def using d a b l
    by (simp add: nth_eq_iff_index_eq)
qed

lemma str_nat_inj: "str_nat m = str_nat n \<Longrightarrow> m = n"
proof (induction m arbitrary: n rule: str_nat.induct)
  case (1 m)
  show ?case
  proof (cases "m < 10")
    case m: True
    show ?thesis
    proof (cases "n < 10")
      case True
      with m 1(2) have "digit_char m = digit_char n"
        by (simp add: str_nat.simps[of m] str_nat.simps[of n])
      with m True show ?thesis by (rule_tac digit_char_inj)
    next
      case False
      with m 1(2) have "[digit_char m] = str_nat (n div 10) @ [digit_char (n mod 10)]"
        by (simp add: str_nat.simps[of m] str_nat.simps[of n])
      then have "str_nat (n div 10) = []" by simp
      with str_nat_nonempty show ?thesis by blast
    qed
  next
    case m: False
    show ?thesis
    proof (cases "n < 10")
      case True
      with m 1(2) have "str_nat (m div 10) @ [digit_char (m mod 10)] = [digit_char n]"
        by (simp add: str_nat.simps[of m] str_nat.simps[of n])
      then have "str_nat (m div 10) = []" by simp
      with str_nat_nonempty show ?thesis by blast
    next
      case False
      with m 1(2) have e: "str_nat (m div 10) @ [digit_char (m mod 10)] = str_nat (n div 10) @ [digit_char (n mod 10)]"
        by (simp add: str_nat.simps[of m] str_nat.simps[of n])
      then have "str_nat (m div 10) = str_nat (n div 10)" and dd: "digit_char (m mod 10) = digit_char (n mod 10)"
        by simp_all
      with 1(1)[OF m] have q: "m div 10 = n div 10" by blast
      from dd have r: "m mod 10 = n mod 10" by (rule_tac digit_char_inj) simp_all
      from q r show ?thesis by (metis div_mult_mod_eq)
    qed
  qed
qed

lemma is_digit_word: "is_digit x \<Longrightarrow> is_word x"
  by (auto simp: is_digit_def is_word_def)

lemma ms_star_head:
  assumes "\<forall>x \<in> set w. atom_ok ic a x" and "rest = [] \<or> \<not> atom_ok ic a (hd rest)"
  shows "\<exists>others. ms ic (Star (Atom a)) (w @ rest, c) = (rest, c) # others"
  using assms
proof (induction w)
  case Nil
  then show ?case by (cases rest) auto
next
  case (Cons x w)
  then obtain others where "ms ic (Star (Atom a)) (w @ rest, c) = (rest, c) # others" by auto
  with Cons.prems show ?case by simp
qed

lemma ms_plus_head:
  assumes "w \<noteq> []" and "\<forall>x \<in> set w. atom_ok ic a x" and "rest = [] \<or> \<not> atom_ok ic a (hd rest)"
  shows "\<exists>others. ms ic (Plus (Atom a)) (w @ rest, c) = (rest, c) # others"
proof -
  from assms(1) obtain x w' where w: "w = x # w'" by (cases w) auto
  with assms(2) have "\<forall>x \<in> set w'. atom_ok ic a x" and x: "atom_ok ic a x" by auto
  from ms_star_head[OF this(1) assms(3), of c] obtain others where
    "ms ic (Star (Atom a)) (w' @ rest, c) = (rest, c) # others" by blast
  with x w show ?thesis by (simp add: Plus_def)
qed

lemma ms_group_head:
  assumes "ms ic r (w @ rest, c) = (rest, c') # others"
  shows "\<exists>others1. ms ic (Group k r) (w @ rest, c) = (rest, c'(k \<mapsto> w)) # others1"
  using assms by simp

lemma ms_seq_head:
  assumes "ms ic r1 sc = a # others1" and "ms ic r2 a = b # others2"
  shows "\<exists>others. ms ic (Seq r1 r2) sc = b # others"
  using assms by simp

lemma ms_eq_tail:
  "ms False (seqs [sp0, Str ''=='', sp0, Group 2 (alts [''True'', ''False''])])
      ('' == '' @ (if b then ''True'' else ''False''), c)
   = [([], c(2 \<mapsto> (if b then ''True'' else ''False'')))]"
  by (cases b) (simp_all add: regex_eval_defs)

lemma fact_word: "\<forall>x \<in> set (''fact_'' @ str_nat n). atom_ok ic Word x"
  using str_nat_digits[of n] by (auto simp: is_digit_word) (simp_all add: is_word_def lower_chars_def)

lemma re_match_fact:
  "\<exists>m. re_match False eq_pattern (''fact_'' @ str_nat n @ '' == '' @ (if b then ''True'' else ''False'')) = Some m
       \<and> the_group m 1 = ''fact_'' @ str_nat n
       \<and> the_group m 2 = (if b then ''True'' else ''False'')"
proof -
  let ?w = "''fact_'' @ str_nat n"
  let ?rest = "'' == '' @ (if b then ''True'' else ''False'')"
  let ?R = "seqs [sp0, Str ''=='', sp0, Group 2 (alts [''True'', ''False''])]"
  have pat: "eq_pattern = Seq (Group 1 (Plus (Atom Word))) ?R"
    by (simp add: eq_pattern_def seqs_def word1_def)
  have "?w \<noteq> []" by simp
  moreover have "?rest = [] \<or> \<not> atom_ok False Word (hd ?rest)"
    by (simp add: is_word_def lower_chars_def upper_chars_def digit_chars_def)
  ultimately obtain others where
    "ms False (Plus (Atom Word)) (?w @ ?rest, Map.empty) = (?rest, Map.empty) # others"
    using ms_plus_head[OF _ fact_word, of n ?rest False Map.empty] by blast
  from ms_group_head[OF this, of 1] obtain others1 where
    g: "ms False (Group 1 (Plus (Atom Word))) (?w @ ?rest, Map.empty) = (?rest, [1 \<mapsto> ?w]) # others1"
    by blast
  from ms_seq_head[OF g ms_eq_tail] obtain others2 where
    "ms False eq_pattern (?w @ ?rest, Map.empty)
       = ([], [1 \<mapsto> ?w, 2 \<mapsto> (if b then ''True'' else ''False'')]) # others2"
    unfolding pat by blast
  then show ?thesis
    by (simp add: re_match_def the_group_def)
qed

lemma parse_fact:
  "parse_logic_to_z3 ev (''fact_'' @ str_nat n @ '' == '' @ (if b then ''True'' else ''False'')) z3_vars
     = (ParsedExpr (if b then Z3Bool (''fact_'' @ str_nat n) else Z3Not (Z3Bool (''fact_'' @ str_nat n))),
        declare_var (''fact_'' @ str_nat n) z3_vars)"
proof -
  from re_match_fact[of n b] obtain m where
    "re_match False eq_pattern (''fact_'' @ str_nat n @ '' == '' @ (if b then ''True'' else ''False'')) = Some m"
    "the_group m 1 = ''fact_'' @ str_nat n" "the_group m 2 = (if b then ''True'' else ''False'')"
    by blast
  then show ?thesis
    by (cases b) (simp_all add: parse_logic_to_z3_def Let_def)
qed

text \<open>The counter only grows, and every constraint of the pattern extraction takes a counter
  value of its own.\<close>

lemma fresh_run_nil: "lo \<le> hi \<Longrightarrow> fresh_run lo hi []"
  by (simp add: fresh_run_def)

lemma fresh_run_append:
  assumes "fresh_run a b xs" and "fresh_run b c ys"
  shows "fresh_run a c (xs @ ys)"
proof -
  from assms(1) obtain n1 where ab: "a \<le> b" and 1: "list_all2 fallback_constraint n1 xs"
    "sorted_wrt (<) (map fst n1)" "\<forall>n \<in> set (map fst n1). a < n \<and> n \<le> b"
    unfolding fresh_run_def by blast
  from assms(2) obtain n2 where bc: "b \<le> c" and 2: "list_all2 fallback_constraint n2 ys"
    "sorted_wrt (<) (map fst n2)" "\<forall>n \<in> set (map fst n2). b < n \<and> n \<le> c"
    unfolding fresh_run_def by blast
  have "list_all2 fallback_constraint (n1 @ n2) (xs @ ys)"
    using 1(1) 2(1) by (rule list_all2_appendI)
  moreover have "sorted_wrt (<) (map fst (n1 @ n2))"
    using 1(2,3) 2(2,3) by (fastforce simp: sorted_wrt_append)
  moreover have "\<forall>n \<in> set (map fst (n1 @ n2)). a < n \<and> n \<le> c"
    using 1(3) 2(3) ab bc by fastforce
  ultimately show ?thesis using ab bc unfolding fresh_run_def by (meson le_trans)
qed

lemma fresh_run_single:
  assumes "fallback_constraint (Suc a, b) c"
  shows "fresh_run a (Suc a) [c]"
  unfolding fresh_run_def
  by (rule conjI, simp, rule exI[of _ "[(Suc a, b)]"]) (use assms in simp)

lemma pattern_loop_fresh:
  "fresh_run counter (snd (pattern_loop t (if b then ''True'' else ''False'') conf prov q pats counter))
     (fst (pattern_loop t (if b then ''True'' else ''False'') conf prov q pats counter))"
proof (induction pats arbitrary: counter)
  case Nil
  then show ?case by (simp add: fresh_run_nil)
next
  case (Cons p pats)
  show ?case
  proof (cases "re_search False p q")
    case None
    with Cons show ?thesis by simp
  next
    case (Some m)
    let ?c = "\<lparr>cid = ''c_'' @ str_nat (Suc counter), constraint_type = t,
                    subject = group0 m, predicate = None, variables = [''fact_'' @ str_nat (Suc counter)],
                    logic_form = (''fact_'' @ str_nat (Suc counter)) @ '' == '' @ (if b then ''True'' else ''False''),
                    natural_language = group0 m,
                    confidence = conf, provenance = Some prov, is_hard = True\<rparr>"
    let ?rest = "pattern_loop t (if b then ''True'' else ''False'') conf prov q pats (Suc counter)"
    have eq: "pattern_loop t (if b then ''True'' else ''False'') conf prov q (p # pats) counter
              = (?c # fst ?rest, snd ?rest)"
      using Some by (simp add: Let_def split_beta)
    have "fallback_constraint (Suc counter, b) ?c" by (simp add: fallback_constraint_def)
    then have "fresh_run counter (Suc counter) [?c]" by (rule fresh_run_single)
    from fresh_run_append[OF this Cons.IH[of "Suc counter"]]
    show ?thesis unfolding eq by simp
  qed
qed

lemma pattern_extract_fresh:
  "fresh_run counter (snd (pattern_extract q es prov counter)) (fst (pattern_extract q es prov counter))"
proof -
  let ?n = "pattern_loop NEGATION ''False'' 0.6 prov (lower q) negation_patterns counter"
  let ?a = "pattern_loop ASSERTION ''True'' 0.5 prov (lower q) assertion_patterns (snd ?n)"
  have 1: "fresh_run counter (snd ?n) (fst ?n)"
    using pattern_loop_fresh[of counter NEGATION False] by simp
  have 2: "fresh_run (snd ?n) (snd ?a) (fst ?a)"
    using pattern_loop_fresh[of "snd ?n" ASSERTION True] by simp
  have "pattern_extract q es prov counter = (fst ?n @ fst ?a, snd ?a)"
    by (simp add: pattern_extract_def Let_def split_beta)
  with fresh_run_append[OF 1 2] show ?thesis by simp
qed

lemma llm_constraints_counter: "counter \<le> snd (llm_constraints prov cds counter)"
proof (induction cds arbitrary: counter)
  case Nil then show ?case by simp
next
  case (Cons cd cds)
  have "Suc counter \<le> snd (llm_constraints prov cds (Suc counter))" by (rule Cons.IH)
  then show ?case by (auto simp: Let_def split: option.splits prod.splits)
qed

lemma llm_constraints_nothing:
  "cds = [] \<or> list_ex (\<lambda>cd. ConstraintType_of (get_or (cd_type cd) ''assertion'') = None) cds \<Longrightarrow>
   fst (llm_constraints prov cds counter) = None \<or> fst (llm_constraints prov cds counter) = Some []"
proof (induction cds arbitrary: counter)
  case Nil then show ?case by simp
next
  case (Cons cd cds)
  show ?case
  proof (cases "ConstraintType_of (get_or (cd_type cd) ''assertion'')")
    case None
    then show ?thesis by (simp add: Let_def)
  next
    case (Some t)
    with Cons.prems have "list_ex (\<lambda>cd. ConstraintType_of (get_or (cd_type cd) ''assertion'') = None) cds"
      by simp
    then have ne: "cds \<noteq> []" by auto
    from Cons.IH[of "Suc counter"] \<open>list_ex _ cds\<close>
    have "fst (llm_constraints prov cds (Suc counter)) = None \<or> fst (llm_constraints prov cds (Suc counter)) = Some []"
      by blast
    moreover have "fst (llm_constraints prov cds (Suc counter)) \<noteq> Some []"
      using ne by (cases cds) (auto simp: Let_def split: option.splits prod.splits)
    ultimately have "fst (llm_constraints prov cds (Suc counter)) = None" by blast
    then show ?thesis using Some by (auto simp: Let_def split: prod.splits)
  qed
qed

lemma llm_extract_nothing:
  assumes "\<forall>w p. yields_nothing (fst (llm w p))"
  shows "fst (llm_extract llm q sg es prov st) = [] \<and> fst st \<le> fst (snd (llm_extract llm q sg es prov st))"
proof (cases "llm (snd st) (q, sg, es)")
  case (Pair reply w')
  with assms have yn: "yields_nothing reply" by (metis fst_conv)
  show ?thesis
  proof (cases reply)
    case LlmFailure
    with Pair show ?thesis by (simp add: llm_extract_def)
  next
    case (LlmItems cds)
    with yn have "fst (llm_constraints prov cds (fst st)) = None \<or> fst (llm_constraints prov cds (fst st)) = Some []"
      by (intro llm_constraints_nothing) simp
    moreover have "fst st \<le> snd (llm_constraints prov cds (fst st))" by (rule llm_constraints_counter)
    ultimately show ?thesis using Pair LlmItems
      by (cases "llm_constraints prov cds (fst st)") (auto simp: llm_extract_def)
  qed
qed

lemma fresh_run_weaken: "lo' \<le> lo \<Longrightarrow> fresh_run lo hi cs \<Longrightarrow> fresh_run lo' hi cs"
  unfolding fresh_run_def by fastforce

lemma extract_from_finding_fresh:
  assumes "\<forall>w p. yields_nothing (fst (llm w p))"
  shows "fresh_run (fst st) (fst (snd (extract_from_finding llm f st))) (fst (extract_from_finding llm f st))"
proof (cases "get2 (f_quote f) (f_Quote f) [] = []")
  case True
  then show ?thesis by (simp add: extract_from_finding_def fresh_run_nil)
next
  case False
  let ?q = "get2 (f_quote f) (f_Quote f) []"
  let ?prov = "\<lparr>doc_id = get_or (f_doc_id f) [], doc_title = get2 (f_document f) (f_Document f) ''Unknown'',
                        paragraph_no = f_paragraph f, page = f_page f,
                        quote = take 500 ?q, court = f_court f, date = f_date f,
                        doc_type = f_doc_type f\<rparr>"
  let ?l = "llm_extract llm ?q (get2 (f_significance f) (f_Significance f) []) (get2 (f_entities f) (f_Entities f) []) ?prov st"
  let ?p = "pattern_extract ?q (get2 (f_entities f) (f_Entities f) []) ?prov (fst (snd ?l))"
  from llm_extract_nothing[OF assms] have e: "fst ?l = []" and le: "fst st \<le> fst (snd ?l)" by auto
  have eq: "extract_from_finding llm f st = (fst ?p, (snd ?p, snd (snd ?l)))"
    using False e by (simp add: extract_from_finding_def Let_def split_beta)
  have "fresh_run (fst (snd ?l)) (snd ?p) (fst ?p)" by (rule pattern_extract_fresh)
  with le have "fresh_run (fst st) (snd ?p) (fst ?p)" by (rule fresh_run_weaken)
  then show ?thesis unfolding eq by simp
qed

lemma extract_all_fresh:
  assumes "\<forall>w p. yields_nothing (fst (llm w p))"
  shows "fresh_run (fst st) (fst (snd (extract_all llm fs st))) (fst (extract_all llm fs st))"
proof (induction fs arbitrary: st)
  case Nil then show ?case by (simp add: fresh_run_nil)
next
  case (Cons f fs)
  let ?a = "extract_from_finding llm f st"
  let ?b = "extract_all llm fs (snd ?a)"
  have eq: "extract_all llm (f # fs) st = (fst ?a @ fst ?b, snd ?b)"
    by (simp add: split_beta Let_def)
  from fresh_run_append[OF extract_from_finding_fresh[OF assms, of st f] Cons.IH[of "snd ?a"]]
  show ?case unfolding eq by simp
qed

lemma not_digit_space: "\<not> is_digit (CHR '' '')"
  by (simp add: is_digit_def digit_chars_def)

lemma takeWhile_str_nat:
  assumes "r \<noteq> []" and "\<not> is_digit (hd r)"
  shows "takeWhile is_digit (str_nat m @ r) = str_nat m"
proof -
  from assms obtain x r0 where r: "r = x # r0" and x: "\<not> is_digit x" by (cases r) auto
  have "takeWhile is_digit (str_nat m @ r) = str_nat m @ takeWhile is_digit r"
    using str_nat_digits[of m] by (intro takeWhile_append2) blast
  also have "takeWhile is_digit r = []" using r x by simp
  finally show ?thesis by simp
qed

lemma str_nat_suffix_inj:
  assumes "str_nat m @ r = str_nat n @ r'"
      and "r \<noteq> []" and "\<not> is_digit (hd r)" and "r' \<noteq> []" and "\<not> is_digit (hd r')"
  shows "m = n"
proof -
  have "str_nat m = takeWhile is_digit (str_nat m @ r)"
    by (rule takeWhile_str_nat[OF assms(2,3), symmetric])
  also have "\<dots> = takeWhile is_digit (str_nat n @ r')" by (simp only: assms(1))
  also have "\<dots> = str_nat n" by (rule takeWhile_str_nat[OF assms(4,5)])
  finally show ?thesis by (rule str_nat_inj)
qed

lemma fallback_logic_inj:
  assumes "fallback_constraint nb c" and "fallback_constraint nb' c'" and "logic_form c = logic_form c'"
  shows "fst nb = fst nb'"
proof -
  let ?r = "'' == '' @ (if snd nb then ''True'' else ''False'')"
  let ?r' = "'' == '' @ (if snd nb' then ''True'' else ''False'')"
  from assms have "''fact_'' @ str_nat (fst nb) @ ?r = ''fact_'' @ str_nat (fst nb') @ ?r'"
    by (simp only: fallback_constraint_def)
  then have e: "str_nat (fst nb) @ ?r = str_nat (fst nb') @ ?r'"
    by (simp only: same_append_eq)
  have "?r \<noteq> []" "\<not> is_digit (hd ?r)" "?r' \<noteq> []" "\<not> is_digit (hd ?r')"
    by (simp_all add: not_digit_space)
  with e show ?thesis by (rule str_nat_suffix_inj)
qed

lemma sorted_wrt_less_distinct: "sorted_wrt (<) (ns :: nat list) \<Longrightarrow> distinct ns"
  by (induction ns) auto

lemma fallback_distinct_logic:
  "list_all2 fallback_constraint nbs cs \<Longrightarrow> distinct (map fst nbs) \<Longrightarrow> distinct (map logic_form cs)"
proof (induction nbs cs rule: list_all2_induct)
  case Nil then show ?case by simp
next
  case (Cons nb nbs c cs)
  have "logic_form c \<notin> logic_form ` set cs"
  proof
    assume "logic_form c \<in> logic_form ` set cs"
    then obtain c' where c': "c' \<in> set cs" and e: "logic_form c = logic_form c'" by blast
    from c' Cons.hyps(2) obtain nb' where nb': "nb' \<in> set nbs" and f: "fallback_constraint nb' c'"
      by (metis in_set_conv_nth list_all2_conv_all_nth)
    from fallback_logic_inj[OF Cons.hyps(1) f e] nb' Cons.prems show False by auto
  qed
  with Cons show ?case by simp
qed

lemma dedup_loop_id:
  "distinct (map logic_form cs) \<Longrightarrow> logic_form ` set cs \<inter> seen = {} \<Longrightarrow> dedup_loop seen cs = cs"
  by (induction cs arbitrary: seen) auto

lemma track_all_fresh:
  "list_all2 fallback_constraint nbs cs \<Longrightarrow>
   \<exists>z3_vars'. track_all ev cs z3_vars = Inr (map fact_tracked nbs, z3_vars')"
proof (induction nbs cs arbitrary: z3_vars rule: list_all2_induct)
  case Nil then show ?case by simp
next
  case (Cons nb nbs c cs)
  from Cons.hyps(1) have lf: "logic_form c = ''fact_'' @ str_nat (fst nb) @ '' == '' @ (if snd nb then ''True'' else ''False'')"
    and id: "cid c = ''c_'' @ str_nat (fst nb)"
    by (simp_all add: fallback_constraint_def)
  from Cons.IH[of "declare_var (''fact_'' @ str_nat (fst nb)) z3_vars"] obtain z3_vars' where
    "track_all ev cs (declare_var (''fact_'' @ str_nat (fst nb)) z3_vars) = Inr (map fact_tracked nbs, z3_vars')"
    by blast
  then show ?case
    using parse_fact[of ev "fst nb" "snd nb" z3_vars]
    by (simp add: lf id fact_tracked_def)
qed

lemma fact_tracked_satisfiable:
  assumes "distinct (map fst nbs)"
  shows "\<exists>m. tracked_hold m (map fact_tracked nbs) \<and> (\<forall>p \<in> snd ` set (map fact_tracked nbs). m p)"
proof -
  let ?ts = "map fact_tracked nbs"
  define m where "m = (\<lambda>name. name \<in> snd ` set ?ts \<or> (\<exists>n. (n, True) \<in> set nbs \<and> name = ''fact_'' @ str_nat n))"
  have lits: "\<forall>p \<in> snd ` set ?ts. m p" by (simp add: m_def)
  have "tracked_hold m ?ts"
    unfolding tracked_hold_def
  proof (intro ballI)
    fix x assume "x \<in> set ?ts"
    then obtain n b where nb: "(n, b) \<in> set nbs" and x: "x = fact_tracked (n, b)" by auto
    show "case x of (e, p) \<Rightarrow> m p \<longrightarrow> z3_eval m e"
    proof (cases b)
      case True
      from nb True have "(n, True) \<in> set nbs" by simp
      then have "m (''fact_'' @ str_nat n)" unfolding m_def by blast
      with True x show ?thesis by (simp add: fact_tracked_def)
    next
      case False
      have "\<not> m (''fact_'' @ str_nat n)"
      proof
        assume "m (''fact_'' @ str_nat n)"
        then consider "''fact_'' @ str_nat n \<in> snd ` set ?ts"
          | n' where "(n', True) \<in> set nbs" "''fact_'' @ str_nat n = ''fact_'' @ str_nat n'"
          unfolding m_def by blast
        then show False
        proof cases
          case 1
          then show False by (auto simp: fact_tracked_def)
        next
          case 2
          then have "n = n'" by (simp add: str_nat_inj)
          with 2 nb False assms show False
            by (metis eq_key_imp_eq_value)
        qed
      qed
      with False x show ?thesis by (simp add: fact_tracked_def)
    qed
  qed
  with lits show ?thesis by blast
qed

lemma fact_tracked_distinct:
  assumes "distinct (map fst nbs)"
  shows "distinct (map snd (map fact_tracked nbs))"
proof -
  have "map snd (map fact_tracked nbs) = map (\<lambda>n. ''c_'' @ str_nat n) (map fst nbs)"
    by (simp add: fact_tracked_def)
  moreover have "inj_on (\<lambda>n. ''c_'' @ str_nat n) (set (map fst nbs))"
    by (rule inj_onI) (simp add: str_nat_inj)
  then have "distinct (map (\<lambda>n. ''c_'' @ str_nat n) (map fst nbs))"
    using assms by (simp only: distinct_map)
  ultimately show ?thesis by (simp only:)
qed

lemma validate_fresh:
  assumes sound: "z3_sound solve" and dec: "z3_decides solve"
      and fb: "list_all2 fallback_constraint nbs cs" and dist: "distinct (map fst nbs)"
  shows "\<exists>res v'. validate_consistency ev solve v cs include_soft = Inr (res, v')
           \<and> satisfiable res \<and> status res = ''sat''"
proof (cases "cs = []")
  case True
  then show ?thesis by (simp add: validate_consistency_def sat_result_def)
next
  case False
  have hard: "\<forall>c \<in> set cs. is_hard c"
  proof
    fix c assume "c \<in> set cs"
    with fb obtain nb where "fallback_constraint nb c"
      by (metis in_set_conv_nth list_all2_conv_all_nth)
    then show "is_hard c" by (simp add: fallback_constraint_def)
  qed
  then have active: "filter (\<lambda>c. include_soft \<or> is_hard c) cs = cs" by simp
  let ?ts = "map fact_tracked nbs"
  from track_all_fresh[OF fb, of ev "declare_all cs"] obtain z3_vars' where
    track: "track_all ev cs (declare_all cs) = Inr (?ts, z3_vars')" by blast
  from fact_tracked_satisfiable[OF dist] obtain m0 where
    m0: "tracked_hold m0 ?ts" "\<forall>p \<in> snd ` set ?ts. m0 p" by blast
  have "\<not> (\<exists>core. solve ?ts = Inr (Unsat core))"
  proof
    assume "\<exists>core. solve ?ts = Inr (Unsat core)"
    then obtain core where "solve ?ts = Inr (Unsat core)" by blast
    with sound have sub: "set core \<subseteq> snd ` set ?ts"
      and no: "\<not> (\<exists>m. tracked_hold m ?ts \<and> (\<forall>p \<in> set core. m p))"
      unfolding z3_sound_def by blast+
    from sub m0(2) have "\<forall>p \<in> set core. m0 p" by (meson subsetD)
    with m0(1) no show False by (meson)
  qed
  moreover from dec fact_tracked_distinct[OF dist]
  have "(\<exists>m. solve ?ts = Inr (Sat m)) \<or> (\<exists>core. solve ?ts = Inr (Unsat core))"
    unfolding z3_decides_def by blast
  ultimately obtain m where solved: "solve ?ts = Inr (Sat m)" by blast
  have "validate_consistency ev solve v cs include_soft =
     Inr (sat_result (Some (map (\<lambda>var_name. (var_name, m var_name)) z3_vars'))
            ''All constraints are logically consistent'', store_constraints cs v)"
    unfolding validate_consistency_def
    using False by (simp add: active track solved Let_def del: track_all.simps filter.simps)
  then show ?thesis by (simp add: sat_result_def)
qed

text \<open>
  Claim C9. When the completion service gives no constraint for any finding of a batch, so that
  every constraint comes from the pattern extraction: each constraint is on its own variable
  \<^verbatim>\<open>fact_N\<close>, with logic form \<^verbatim>\<open>fact_N == True\<close> or \<^verbatim>\<open>fact_N == False\<close> and id
  \<^verbatim>\<open>c_N\<close>, for strictly increasing \<open>N\<close>; and \<^verbatim>\<open>validate_consistency\<close> on the batch returns a
  satisfiable result, for any solver that keeps its promises.
\<close>

theorem C9_fallback_constraints_satisfiable:
  assumes sound: "z3_sound solve" and dec: "z3_decides solve"
      and silent: "\<forall>w p. yields_nothing (fst (llm w p))"
  shows "\<exists>nbs. list_all2 fallback_constraint nbs (fst (extract_constraints llm findings st))
           \<and> sorted_wrt (<) (map fst nbs)
           \<and> (\<exists>res v'. validate_consistency ev solve v (fst (extract_constraints llm findings st))
                  include_soft = Inr (res, v')
                \<and> satisfiable res \<and> status res = ''sat'')"
proof -
  let ?all = "fst (extract_all llm findings st)"
  from extract_all_fresh[OF silent, of st findings] obtain nbs where
    fb: "list_all2 fallback_constraint nbs ?all" and srt: "sorted_wrt (<) (map fst nbs)"
    unfolding fresh_run_def by blast
  from srt have dist: "distinct (map fst nbs)" by (rule sorted_wrt_less_distinct)
  have "distinct (map logic_form ?all)" using fb dist by (rule fallback_distinct_logic)
  then have "dedup_loop {} ?all = ?all" by (rule dedup_loop_id) simp
  then have res: "fst (extract_constraints llm findings st) = ?all"
    by (simp add: extract_constraints_def split_beta)
  from validate_fresh[OF sound dec fb dist, of ev v include_soft] obtain r v' where
    "validate_consistency ev solve v ?all include_soft = Inr (r, v')" "satisfiable r" "status r = ''sat''"
    by blast
  then have "\<exists>res v'. validate_consistency ev solve v ?all include_soft = Inr (res, v')
                \<and> satisfiable res \<and> status res = ''sat''" by blast
  with fb srt show ?thesis unfolding res by blast
qed

theorem C9_witness:
  "map logic_form (fst (extract_constraints failing_llm [sample_finding] (0, ())))
     = [''fact_1 == False'', ''fact_2 == True'', ''fact_3 == True'']
   \<and> map cid (fst (extract_constraints failing_llm [sample_finding] (0, ())))
     = [''c_1'', ''c_2'', ''c_3'']
   \<and> (\<exists>res v'. validate_consistency sample_evaluator reference_solver fresh_validator
          (fst (extract_constraints failing_llm [sample_finding] (0, ()))) False = Inr (res, v')
        \<and> satisfiable res \<and> status res = ''sat'')"
proof -
  have silent: "\<forall>w p. yields_nothing (fst (failing_llm w p))"
    by (simp add: failing_llm_def)
  have forms: "map logic_form (fst (extract_constraints failing_llm [sample_finding] (0, ())))
     = [''fact_1 == False'', ''fact_2 == True'', ''fact_3 == True'']"
    by code_simp
  have ids: "map cid (fst (extract_constraints failing_llm [sample_finding] (0, ())))
     = [''c_1'', ''c_2'', ''c_3'']"
    by code_simp
  from C9_fallback_constraints_satisfiable[OF reference_solver_sound reference_solver_decides silent,
      of "[sample_finding]" "(0, ())" sample_evaluator fresh_validator False]
  have "\<exists>res v'. validate_consistency sample_evaluator reference_solver fresh_validator
          (fst (extract_constraints failing_llm [sample_finding] (0, ()))) False = Inr (res, v')
        \<and> satisfiable res \<and> status res = ''sat''"
    by blast
  with forms ids show ?thesis by blast
qed

end
